theory Spec2Isabelle
  imports Main "HOL-Library.AList"
begin

section \<open>The rate limiter (class RateLimit and its singleton rateLimit)\<close>

text \<open>
  JavaScript numbers that only ever hold integers (counters, millisecond timestamps) are
  modelled as \<open>int\<close>. The private \<open>Map<string, RateLimitEntry>\<close> is a partial function
  from keys to entries. \<open>Date.now()\<close> is an input of every call (\<open>now\<close>).
\<close>

record RateLimitEntry =
  count :: int
  resetTime :: int

record RateLimit =
  store :: "string \<rightharpoonup> RateLimitEntry"
  limit :: int
  windowMs :: int

record check_result =
  success :: bool
  remaining :: int

definition new_RateLimit :: "int \<Rightarrow> int \<Rightarrow> RateLimit" where
  "new_RateLimit l w = \<lparr>store = Map.empty, limit = l, windowMs = w\<rparr>"

definition rateLimit :: RateLimit where
  \<comment> \<open>\<open>export const rateLimit = new RateLimit()\<close>, with the constructor's defaults\<close>
  "rateLimit = new_RateLimit 10 60000"

definition check :: "RateLimit \<Rightarrow> string \<Rightarrow> int \<Rightarrow> RateLimit \<times> check_result" where
  "check rl key now =
     (let entry = store rl key;
          \<comment> \<open>clean up an expired entry\<close>
          rl1 = (case entry of
                   Some e \<Rightarrow> if now > resetTime e then rl\<lparr>store := (store rl)(key := None)\<rparr> else rl
                 | None \<Rightarrow> rl);
          fresh = (rl1\<lparr>store := (store rl1)(key \<mapsto> \<lparr>count = 1, resetTime = now + windowMs rl\<rparr>)\<rparr>,
                   \<lparr>success = True, remaining = limit rl - 1\<rparr>)
      in case entry of
           None \<Rightarrow> fresh
         | Some e \<Rightarrow>
             if now > resetTime e then fresh
             else if count e \<ge> limit rl then (rl1, \<lparr>success = False, remaining = 0\<rparr>)
             else (rl1\<lparr>store := (store rl1)(key \<mapsto> e\<lparr>count := count e + 1\<rparr>)\<rparr>,
                   \<lparr>success = True, remaining = limit rl - (count e + 1)\<rparr>))"

definition cleanup :: "RateLimit \<Rightarrow> int \<Rightarrow> RateLimit" where
  "cleanup rl now =
     rl\<lparr>store := (\<lambda>key. case store rl key of
                        None \<Rightarrow> None
                      | Some e \<Rightarrow> if now > resetTime e then None else Some e)\<rparr>"




text \<open>Calls of the limiter's two methods, for the invariant of its map.\<close>

datatype rl_op = Check string int | Cleanup int

fun rl_step :: "RateLimit \<Rightarrow> rl_op \<Rightarrow> RateLimit" where
  "rl_step rl (Check key now) = fst (check rl key now)"
| "rl_step rl (Cleanup now) = cleanup rl now"

fun rl_run :: "RateLimit \<Rightarrow> rl_op list \<Rightarrow> RateLimit" where
  "rl_run rl [] = rl"
| "rl_run rl (op # ops) = rl_run (rl_step rl op) ops"

section \<open>The task store of /api/generate: POST, GET and processTask\<close>

datatype task_type = TImage | TVideo

datatype task_status = Pending | Processing | Completed | Failed

record Task =
  id_t :: string
  type_t :: task_type
  status :: task_status
  progress :: int
  result :: "string option"
  error :: "string option"
  createdAt :: int

definition MAX_CONCURRENT_TASKS :: nat where
  "MAX_CONCURRENT_TASKS = 5"

definition MAX_PROMPT_LENGTH :: nat where
  "MAX_PROMPT_LENGTH = 1000"

text \<open>
  The fields \<open>type\<close> and \<open>prompt\<close> of the parsed request body are untyped JSON values.
  A string is kept as the list of its UTF-16 code units, which is what \<open>length\<close> counts.
  Any other value is kept by the two things POST observes of it: whether it is truthy, and
  whether its \<open>length\<close> property compares greater than \<open>MAX_PROMPT_LENGTH\<close>.
\<close>

datatype jsval =
    JMissing \<comment> \<open>\<open>undefined\<close> or \<open>null\<close>\<close>
  | JStr string
  | JOther bool bool \<comment> \<open>a boolean, number, array or object: truthy?, \<open>.length > 1000\<close>?\<close>

fun truthy :: "jsval \<Rightarrow> bool" where
  "truthy JMissing = False"
| "truthy (JStr s) = (s \<noteq> [])"
| "truthy (JOther t g) = t"

fun length_exceeds :: "jsval \<Rightarrow> bool" where
  "length_exceeds JMissing = False"
| "length_exceeds (JStr s) = (length s > MAX_PROMPT_LENGTH)"
| "length_exceeds (JOther t g) = g"

fun falsy_str :: "string option \<Rightarrow> bool" where
  \<comment> \<open>\<open>!s\<close> for a value that is a string, \<open>null\<close> or \<open>undefined\<close>\<close>
  "falsy_str None = True"
| "falsy_str (Some s) = (s = [])"

record post_body =
  b_type :: jsval
  b_prompt :: jsval

record post_request =
  rq_forwarded_for :: "string option" \<comment> \<open>the header \<open>x-forwarded-for\<close>\<close>
  rq_body :: "post_body option" \<comment> \<open>\<open>None\<close>: \<open>request.json()\<close> or the destructuring throws\<close>
  rq_now :: int \<comment> \<open>\<open>Date.now()\<close> as the rate limiter reads it\<close>
  rq_created :: int \<comment> \<open>\<open>new Date()\<close> when the task is created\<close>
  rq_uuid :: string \<comment> \<open>what \<open>crypto.randomUUID()\<close> returns\<close>
  rq_apiKey :: "string option" \<comment> \<open>\<open>process.env.RUNWAY_API_KEY\<close>\<close>

datatype payload = ErrorMsg string | TaskIdPayload string | TaskPayload Task

record response =
  http_status :: nat
  payload :: payload

definition err :: "nat \<Rightarrow> string \<Rightarrow> response" where
  "err code msg = \<lparr>http_status = code, payload = ErrorMsg msg\<rparr>"

text \<open>
  Task objects live in a heap and the store maps an id to a reference, because
  \<open>processTask\<close> keeps the reference \<open>task\<close> it read before its first \<open>await\<close> and writes
  through it afterwards. \<open>awaiting\<close> holds the invocations of \<open>processTask\<close> suspended at
  \<open>await fetch\<close>; \<open>timers\<close> holds the callbacks scheduled by \<open>setTimeout\<close> with their delay;
  \<open>parsing\<close> holds the POST requests that the rate limiter has admitted and that are
  suspended at \<open>await request.json()\<close>.
\<close>

record call =
  c_ref :: nat
  c_taskId :: string
  c_type :: task_type
  c_prompt :: jsval

record gen_state =
  limiter :: RateLimit
  heap :: "Task list"
  tasks :: "(string \<times> nat) list"
  awaiting :: "call list"
  timers :: "(string \<times> int) list"
  parsing :: "post_request list"

definition init_state :: gen_state where
  "init_state =
     \<lparr>limiter = rateLimit, heap = [], tasks = [], awaiting = [], timers = [], parsing = []\<rparr>"

definition set_task :: "gen_state \<Rightarrow> nat \<Rightarrow> (Task \<Rightarrow> Task) \<Rightarrow> gen_state" where
  "set_task st r f = st\<lparr>heap := (heap st)[r := f (heap st ! r)]\<rparr>"

definition fail_task :: "gen_state \<Rightarrow> nat \<Rightarrow> string \<Rightarrow> string \<Rightarrow> gen_state" where
  \<comment> \<open>the \<open>catch\<close> block of \<open>processTask\<close>\<close>
  "fail_task st r taskId msg =
     (set_task st r (\<lambda>t. t\<lparr>status := Failed, error := Some msg\<rparr>))
       \<lparr>timers := timers st @ [(taskId, 900000)]\<rparr>"

definition complete_task :: "gen_state \<Rightarrow> nat \<Rightarrow> string \<Rightarrow> string \<Rightarrow> gen_state" where
  "complete_task st r taskId url =
     (set_task st r (\<lambda>t. t\<lparr>status := Completed, progress := 100, result := Some url\<rparr>))
       \<lparr>timers := timers st @ [(taskId, 3600000)]\<rparr>"

definition processTask :: "gen_state \<Rightarrow> string \<Rightarrow> task_type \<Rightarrow> jsval \<Rightarrow> string option \<Rightarrow> gen_state" where
  \<comment> \<open>the part of \<open>processTask\<close> that runs before its first \<open>await\<close>, inside the caller\<close>
  "processTask st taskId ty prompt apiKey =
     (case map_of (tasks st) taskId of
        None \<Rightarrow> st
      | Some r \<Rightarrow>
          let st1 = set_task st r (\<lambda>t. t\<lparr>status := Processing\<rparr>)
          in if falsy_str apiKey then fail_task st1 r taskId ''RUNWAY_API_KEY is not configured''
             else st1\<lparr>awaiting := awaiting st1 @
                    [\<lparr>c_ref = r, c_taskId = taskId, c_type = ty, c_prompt = prompt\<rparr>]\<rparr>)"

text \<open>What the awaited upstream call turns out to be.\<close>

datatype fetch_outcome =
    Threw string \<comment> \<open>an \<open>await\<close> throws an \<open>Error\<close> with this message\<close>
  | ThrewNonError \<comment> \<open>an \<open>await\<close> throws a value that is not an \<open>Error\<close>\<close>
  | NotOk string string \<comment> \<open>\<open>response.ok\<close> is false: \<open>statusText\<close> and the body text\<close>
  | OkData "string option" \<comment> \<open>\<open>data.output?.[type]\<close>, \<open>None\<close> when absent\<close>

fun type_name :: "task_type \<Rightarrow> string" where
  "type_name TImage = ''image''"
| "type_name TVideo = ''video''"

definition processTask_resume :: "gen_state \<Rightarrow> call \<Rightarrow> fetch_outcome \<Rightarrow> gen_state" where
  \<comment> \<open>the rest of \<open>processTask\<close>, once the awaited calls have settled\<close>
  "processTask_resume st c out =
     (case out of
        Threw msg \<Rightarrow> fail_task st (c_ref c) (c_taskId c) msg
      | ThrewNonError \<Rightarrow> fail_task st (c_ref c) (c_taskId c) ''Unknown error''
      | NotOk statusText errorData \<Rightarrow>
          fail_task st (c_ref c) (c_taskId c)
            (''Runway API error: '' @ statusText @ ''. '' @ errorData)
      | OkData url \<Rightarrow>
          if falsy_str url
          then fail_task st (c_ref c) (c_taskId c)
                 (''No '' @ type_name (c_type c) @ '' URL returned from Runway API'')
          else complete_task st (c_ref c) (c_taskId c) (the url))"

definition activeTasks :: "gen_state \<Rightarrow> Task list" where
  "activeTasks st =
     filter (\<lambda>t. status t = Pending \<or> status t = Processing)
       (map (\<lambda>(k, r). heap st ! r) (tasks st))"

definition client_key :: "post_request \<Rightarrow> string" where
  \<comment> \<open>\<open>headers().get('x-forwarded-for') || 'unknown'\<close>\<close>
  "client_key rq =
     (if falsy_str (rq_forwarded_for rq) then ''unknown'' else the (rq_forwarded_for rq))"

text \<open>
  POST runs in two stretches, with \<open>await\<close> between them: the rate limiter, and then
  everything from the parsed body on. \<open>POST_limit\<close> is the first and \<open>POST_rest\<close> the second;
  \<open>POST\<close> is the handler run without another handler in between.
\<close>

definition POST_limit :: "gen_state \<Rightarrow> post_request \<Rightarrow> gen_state \<times> bool" where
  "POST_limit st rq =
     (let ip = client_key rq;
          (rl, res) = check (limiter st) ip (rq_now rq)
      in (st\<lparr>limiter := rl\<rparr>, success res))"

definition POST_rest :: "gen_state \<Rightarrow> post_request \<Rightarrow> gen_state \<times> response" where
  "POST_rest st rq =
     (case rq_body rq of
        None \<Rightarrow> (st, err 500 ''Failed to create task'')
      | Some b \<Rightarrow>
          if \<not> truthy (b_type b) \<or> \<not> truthy (b_prompt b)
          then (st, err 400 ''Type and prompt are required'')
          else if b_type b \<noteq> JStr ''image'' \<and> b_type b \<noteq> JStr ''video''
          then (st, err 400 ''Type must be either \"image\" or \"video\"'')
          else if length_exceeds (b_prompt b)
          then (st, err 400 ''Prompt must be less than 1000 characters'')
          else if length (activeTasks st) \<ge> MAX_CONCURRENT_TASKS
          then (st, err 429 ''Maximum number of concurrent tasks reached. Please try again later.'')
          else
            let taskId = rq_uuid rq;
                ty = (if b_type b = JStr ''image'' then TImage else TVideo);
                task = \<lparr>id_t = taskId, type_t = ty, status = Pending, progress = 0,
                        result = None, error = None, createdAt = rq_created rq\<rparr>;
                st2 = st\<lparr>heap := heap st @ [task],
                         tasks := AList.update taskId (length (heap st)) (tasks st)\<rparr>;
                st3 = processTask st2 taskId ty (b_prompt b) (rq_apiKey rq)
            in (st3, \<lparr>http_status = 200, payload = TaskIdPayload taskId\<rparr>))"

definition POST :: "gen_state \<Rightarrow> post_request \<Rightarrow> gen_state \<times> response" where
  "POST st rq =
     (let (st1, passed) = POST_limit st rq
      in if \<not> passed then (st1, err 429 ''Too many requests. Please try again later.'')
         else POST_rest st1 rq)"

text \<open>
  \<open>tasks[taskId]\<close> reads a plain object: an id that is not a key of the store is still
  answered when the object inherits a property of that name from \<open>Object.prototype\<close>.
  \<open>inherited\<close> says which names are inherited when the request is served; the value found
  is then not a task, and GET hands it to \<open>NextResponse.json\<close>.
\<close>

datatype get_outcome = Answer response | JsonOfInherited string

definition GET :: "(string \<Rightarrow> bool) \<Rightarrow> gen_state \<Rightarrow> string option \<Rightarrow> get_outcome" where
  "GET inherited st q =
     (if falsy_str q then Answer (err 400 ''Task ID is required'')
      else let taskId = the q in
        case map_of (tasks st) taskId of
          Some r \<Rightarrow> Answer \<lparr>http_status = 200, payload = TaskPayload (heap st ! r)\<rparr>
        | None \<Rightarrow>
            if inherited taskId then JsonOfInherited taskId
            else Answer (err 404 ''Task not found''))"

definition Object_prototype_members :: "string list" where
  "Object_prototype_members =
     [''constructor'', ''__defineGetter__'', ''__defineSetter__'', ''hasOwnProperty'',
      ''__lookupGetter__'', ''__lookupSetter__'', ''isPrototypeOf'', ''propertyIsEnumerable'',
      ''toString'', ''valueOf'', ''__proto__'', ''toLocaleString'']"

text \<open>The events of the server: requests, settled upstream calls, timers that fire.\<close>

datatype event =
    EvPOST post_request \<comment> \<open>a POST handled without interruption\<close>
  | EvArrive post_request \<comment> \<open>a POST runs up to \<open>await request.json()\<close>\<close>
  | EvParsed nat \<comment> \<open>the \<open>i\<close>-th suspended POST resumes with its body\<close>
  | EvGET "string option"
  | EvSettled nat fetch_outcome \<comment> \<open>the \<open>i\<close>-th suspended \<open>processTask\<close> resumes\<close>
  | EvTimer nat \<comment> \<open>the \<open>i\<close>-th pending timer fires\<close>

definition remove_nth :: "nat \<Rightarrow> 'a list \<Rightarrow> 'a list" where
  "remove_nth i xs = take i xs @ drop (Suc i) xs"

fun step :: "gen_state \<Rightarrow> event \<Rightarrow> gen_state" where
  "step st (EvPOST rq) = fst (POST st rq)"
| "step st (EvArrive rq) =
     (let (st1, passed) = POST_limit st rq
      in if passed then st1\<lparr>parsing := parsing st1 @ [rq]\<rparr> else st1)"
| "step st (EvParsed i) =
     (if i < length (parsing st)
      then fst (POST_rest (st\<lparr>parsing := remove_nth i (parsing st)\<rparr>) (parsing st ! i))
      else st)"
| "step st (EvGET q) = st"
| "step st (EvSettled i out) =
     (if i < length (awaiting st)
      then processTask_resume (st\<lparr>awaiting := remove_nth i (awaiting st)\<rparr>) (awaiting st ! i) out
      else st)"
| "step st (EvTimer i) =
     (if i < length (timers st)
      then st\<lparr>timers := remove_nth i (timers st),
              tasks := AList.delete (fst (timers st ! i)) (tasks st)\<rparr>
      else st)"

fun run :: "gen_state \<Rightarrow> event list \<Rightarrow> gen_state" where
  "run st [] = st"
| "run st (e # es) = run (step st e) es"

text \<open>Forward along \<open>pending \<rightarrow> processing \<rightarrow> {completed, failed}\<close>, or no move.\<close>

fun status_fwd :: "task_status \<Rightarrow> task_status \<Rightarrow> bool" where
  "status_fwd Pending s = True"
| "status_fwd Processing s = (s \<noteq> Pending)"
| "status_fwd Completed s = (s = Completed)"
| "status_fwd Failed s = (s = Failed)"

definition terminal :: "task_status \<Rightarrow> bool" where
  "terminal s = (s = Completed \<or> s = Failed)"

section \<open>The store of /api/generate-video: POST and GET\<close>

text \<open>
  The entries of \<open>videoTasks\<close> are untyped objects. \<open>status\<close> holds whatever was assigned:
  \<open>Some s\<close> for a string, \<open>None\<close> for \<open>undefined\<close>. \<open>videoUrl\<close> and \<open>error\<close> hold the
  upstream's \<open>output\<close> and \<open>error\<close> values, kept as text.
\<close>

record VideoTask =
  v_id :: string
  v_status :: "string option"
  v_progress :: int
  v_createdAt :: int
  videoUrl :: "string option"
  v_error :: "string option"

datatype form_entry =
    NoEntry \<comment> \<open>\<open>formData.get\<close> returns \<open>null\<close>\<close>
  | TextEntry string
  | FileEntry string \<comment> \<open>a \<open>File\<close>, with its \<open>type\<close>\<close>

fun entry_truthy :: "form_entry \<Rightarrow> bool" where
  "entry_truthy NoEntry = False"
| "entry_truthy (TextEntry s) = (s \<noteq> [])"
| "entry_truthy (FileEntry m) = True"

record form =
  f_image :: form_entry
  f_prompt :: form_entry

definition startsWith :: "string \<Rightarrow> string \<Rightarrow> bool" where
  "startsWith s p = (take (length p) s = p)"

datatype upstream_call = SdkCreate | DirectCreate | DirectStatus string

datatype sdk_outcome =
    SdkCreated string \<comment> \<open>\<open>task.id\<close>\<close>
  | SdkThrew string

datatype direct_outcome =
    DThrew string \<comment> \<open>\<open>fetch\<close> or the reading of its body throws\<close>
  | DNotOk nat string \<comment> \<open>\<open>response.status\<close> and the body text\<close>
  | DCreated string "string option" \<comment> \<open>\<open>data.id\<close> and \<open>data.status\<close>\<close>

datatype thrown =
    TypeError \<comment> \<open>raised by the runtime\<close>
  | Error string
  | ApiError nat string \<comment> \<open>\<open>API Error: ${response.status} - ${errorText}\<close>\<close>

record video_post =
  vp_form :: "form option" \<comment> \<open>\<open>request.formData()\<close>; \<open>None\<close> when it throws\<close>
  vp_apiKey :: "string option"
  vp_sdk :: sdk_outcome
  vp_direct :: direct_outcome
  vp_now :: int

datatype vpayload =
    VError string
  | VBothFailed thrown thrown \<comment> \<open>the SDK error and the direct call's error\<close>
  | VStarted string "string option" bool \<comment> \<open>\<open>taskId\<close>, \<open>status\<close>, \<open>fallback\<close>\<close>
  | VDone string string \<comment> \<open>\<open>taskId\<close>, \<open>videoUrl\<close>\<close>
  | VStatus string string int "string option" "string option"

record vresponse =
  v_http :: nat
  v_payload :: vpayload

type_synonym video_store = "(string \<times> VideoTask) list"

definition new_video_task :: "string \<Rightarrow> string \<Rightarrow> int \<Rightarrow> VideoTask" where
  "new_video_task tid st t =
     \<lparr>v_id = tid, v_status = Some st, v_progress = 0, v_createdAt = t,
      videoUrl = None, v_error = None\<rparr>"

text \<open>
  The \<open>catch\<close> block of POST reads \<open>request.formData()\<close> a second time, on the same
  \<open>Request\<close>. A body is read once: when the first read has returned, the body is used up
  and the second read throws; when the first read has thrown, the second throws too.
\<close>

definition formData_again :: "form option \<Rightarrow> form option" where
  "formData_again first =
     (case first of
        Some f \<Rightarrow> None \<comment> \<open>the body has been read: \<open>TypeError\<close>\<close>
      | None \<Rightarrow> None \<comment> \<open>the read that failed fails again\<close>)"

definition fallback :: "video_store \<Rightarrow> video_post \<Rightarrow> thrown \<Rightarrow> upstream_call list
    \<Rightarrow> video_store \<times> vresponse \<times> upstream_call list" where
  \<comment> \<open>the \<open>catch\<close> block of POST: the direct call to the upstream API\<close>
  "fallback vs rq e calls =
     (case formData_again (vp_form rq) of
        None \<Rightarrow> (vs, \<lparr>v_http = 500, v_payload = VBothFailed e TypeError\<rparr>, calls)
      | Some f \<Rightarrow>
         (case f_image f of
            FileEntry m \<Rightarrow>
              (case vp_direct rq of
                 DThrew msg \<Rightarrow>
                   (vs, \<lparr>v_http = 500, v_payload = VBothFailed e (Error msg)\<rparr>,
                    calls @ [DirectCreate])
               | DNotOk code txt \<Rightarrow>
                   (vs, \<lparr>v_http = 500, v_payload = VBothFailed e (ApiError code txt)\<rparr>,
                    calls @ [DirectCreate])
               | DCreated tid st \<Rightarrow>
                   (AList.update tid
                      (new_video_task tid (if falsy_str st then ''pending'' else the st) (vp_now rq)) vs,
                    \<lparr>v_http = 200, v_payload = VStarted tid st True\<rparr>,
                    calls @ [DirectCreate]))
          | _ \<Rightarrow> (vs, \<lparr>v_http = 500, v_payload = VBothFailed e TypeError\<rparr>, calls)))"

definition POST_video :: "video_store \<Rightarrow> video_post
    \<Rightarrow> video_store \<times> vresponse \<times> upstream_call list" where
  "POST_video vs rq =
     (case vp_form rq of
        None \<Rightarrow> fallback vs rq TypeError []
      | Some f \<Rightarrow>
          if \<not> entry_truthy (f_image f) \<or> \<not> entry_truthy (f_prompt f)
          then (vs, \<lparr>v_http = 400, v_payload = VError ''Image and prompt are required.''\<rparr>, [])
          else (case f_image f of
            FileEntry m \<Rightarrow>
              (if \<not> startsWith m ''image/''
               then (vs, \<lparr>v_http = 400,
                          v_payload = VError ''Invalid file type. Please upload an image.''\<rparr>, [])
               else if falsy_str (vp_apiKey rq)
               then fallback vs rq (Error ''RUNWAY_API_KEY is not configured.'') []
               else (case vp_sdk rq of
                       SdkThrew msg \<Rightarrow> fallback vs rq (Error msg) [SdkCreate]
                     | SdkCreated tid \<Rightarrow>
                         (AList.update tid (new_video_task tid ''pending'' (vp_now rq)) vs,
                          \<lparr>v_http = 200, v_payload = VStarted tid (Some ''pending'') False\<rparr>,
                          [SdkCreate])))
          | _ \<Rightarrow> fallback vs rq TypeError []))"

text \<open>
  The other POST handler of the repository (src/unnamed/part_002) waits for the output of
  the SDK task and keeps no store.
\<close>

datatype sdk_wait_outcome =
    SdkOutput string "string list" \<comment> \<open>\<open>task.id\<close> and \<open>task.output\<close>\<close>
  | SdkWaitThrew string

record video_post_sync =
  vs_form :: "form option"
  vs_apiKey :: "string option"
  vs_sdk :: sdk_wait_outcome
  vs_direct :: direct_outcome

definition fallback_sync :: "video_post_sync \<Rightarrow> thrown \<Rightarrow> upstream_call list
    \<Rightarrow> vresponse \<times> upstream_call list" where
  "fallback_sync rq e calls =
     (case formData_again (vs_form rq) of
        None \<Rightarrow> (\<lparr>v_http = 500, v_payload = VBothFailed e TypeError\<rparr>, calls)
      | Some f \<Rightarrow>
         (case f_image f of
            FileEntry m \<Rightarrow>
              (case vs_direct rq of
                 DThrew msg \<Rightarrow>
                   (\<lparr>v_http = 500, v_payload = VBothFailed e (Error msg)\<rparr>, calls @ [DirectCreate])
               | DNotOk code txt \<Rightarrow>
                   (\<lparr>v_http = 500, v_payload = VBothFailed e (ApiError code txt)\<rparr>, calls @ [DirectCreate])
               | DCreated tid st \<Rightarrow>
                   (\<lparr>v_http = 200, v_payload = VStarted tid None True\<rparr>, calls @ [DirectCreate]))
          | _ \<Rightarrow> (\<lparr>v_http = 500, v_payload = VBothFailed e TypeError\<rparr>, calls)))"

definition POST_video_sync :: "video_post_sync \<Rightarrow> vresponse \<times> upstream_call list" where
  "POST_video_sync rq =
     (case vs_form rq of
        None \<Rightarrow> fallback_sync rq TypeError []
      | Some f \<Rightarrow>
          if \<not> entry_truthy (f_image f) \<or> \<not> entry_truthy (f_prompt f)
          then (\<lparr>v_http = 400, v_payload = VError ''Image and prompt are required.''\<rparr>, [])
          else (case f_image f of
            FileEntry m \<Rightarrow>
              (if \<not> startsWith m ''image/''
               then (\<lparr>v_http = 400,
                      v_payload = VError ''Invalid file type. Please upload an image.''\<rparr>, [])
               else if falsy_str (vs_apiKey rq)
               then fallback_sync rq (Error ''RUNWAY_API_KEY is not configured.'') []
               else (case vs_sdk rq of
                      SdkWaitThrew msg \<Rightarrow> fallback_sync rq (Error msg) [SdkCreate]
                    | SdkOutput tid out \<Rightarrow>
                        (case out of
                           [] \<Rightarrow> fallback_sync rq (Error ''No video URL found in completed task'')
                                   [SdkCreate]
                         | url # _ \<Rightarrow>
                             if url = []
                             then fallback_sync rq (Error ''No video URL found in completed task'')
                                    [SdkCreate]
                             else (\<lparr>v_http = 200, v_payload = VDone tid url\<rparr>, [SdkCreate]))))
          | _ \<Rightarrow> fallback_sync rq TypeError []))"

text \<open>The status query of /api/generate-video asks the upstream API.\<close>

record upstream_task =
  u_status :: "string option" \<comment> \<open>\<open>data.status\<close>: \<open>None\<close> when it is not there\<close>
  u_output :: "string option" \<comment> \<open>\<open>data.output\<close>, when truthy\<close>
  u_error :: "string option" \<comment> \<open>\<open>data.error\<close>, when truthy\<close>

datatype status_outcome =
    SThrew
  | SNotOk nat string
  | SData upstream_task

record video_get =
  vg_taskId :: "string option"
  vg_apiKey :: "string option"
  vg_upstream :: status_outcome

definition progress_of :: "string option \<Rightarrow> int" where
  "progress_of s = (if s = Some ''SUCCEEDED'' then 100 else if s = Some ''FAILED'' then 0 else 50)"

definition update_video_task :: "upstream_task \<Rightarrow> VideoTask \<Rightarrow> VideoTask" where
  "update_video_task d vt =
     (let vt1 = vt\<lparr>v_status := u_status d, v_progress := progress_of (u_status d)\<rparr>;
          vt2 = (if u_status d = Some ''SUCCEEDED'' \<and> u_output d \<noteq> None
                 then vt1\<lparr>videoUrl := u_output d\<rparr> else vt1)
      in if u_status d = Some ''FAILED'' \<and> u_error d \<noteq> None
         then vt2\<lparr>v_error := u_error d\<rparr> else vt2)"

definition toLowerCase :: "string \<Rightarrow> string" where
  "toLowerCase s =
     map (\<lambda>c. if 65 \<le> (of_char c :: nat) \<and> (of_char c :: nat) \<le> 90
               then char_of ((of_char c :: nat) + 32) else c) s"

definition GET_video :: "video_store \<Rightarrow> video_get
    \<Rightarrow> video_store \<times> vresponse \<times> upstream_call list" where
  "GET_video vs rq =
     (if falsy_str (vg_taskId rq)
      then (vs, \<lparr>v_http = 400, v_payload = VError ''Task ID is required''\<rparr>, [])
      else if falsy_str (vg_apiKey rq)
      then (vs, \<lparr>v_http = 500, v_payload = VError ''RUNWAY_API_KEY is not configured''\<rparr>, [])
      else
        let taskId = the (vg_taskId rq);
            failed = \<lparr>v_http = 500, v_payload = VError ''Failed to check task status''\<rparr>
        in (case vg_upstream rq of
              SThrew \<Rightarrow> (vs, failed, [DirectStatus taskId])
            | SNotOk code txt \<Rightarrow> (vs, failed, [DirectStatus taskId])
            | SData d \<Rightarrow>
                (let vs1 = (case map_of vs taskId of
                              None \<Rightarrow> vs
                            | Some vt \<Rightarrow> AList.update taskId (update_video_task d vt) vs)
                 in (case u_status d of
                       None \<Rightarrow> (vs1, failed, [DirectStatus taskId])
                     | Some s \<Rightarrow>
                         (vs1,
                          \<lparr>v_http = 200,
                           v_payload = VStatus taskId (toLowerCase s) (progress_of (Some s))
                             (if s = ''SUCCEEDED'' then u_output d else None)
                             (if s = ''FAILED'' then u_error d else None)\<rparr>,
                          [DirectStatus taskId])))))"

datatype video_event = VPost video_post | VGet video_get

fun video_step :: "video_store \<Rightarrow> video_event \<Rightarrow> video_store" where
  "video_step vs (VPost rq) = fst (POST_video vs rq)"
| "video_step vs (VGet rq) = fst (GET_video vs rq)"

fun video_run :: "video_store \<Rightarrow> video_event list \<Rightarrow> video_store" where
  "video_run vs [] = vs"
| "video_run vs (e # es) = video_run (video_step vs e) es"

section \<open>Invariants of the task store\<close>

definition refs_ok :: "gen_state \<Rightarrow> bool" where
  "refs_ok st = (\<forall>p \<in> set (tasks st). snd p < length (heap st))"

definition calls_ok :: "gen_state \<Rightarrow> bool" where
  "calls_ok st =
     ((\<forall>c \<in> set (awaiting st).
          c_ref c < length (heap st) \<and> status (heap st ! c_ref c) = Processing
          \<and> id_t (heap st ! c_ref c) = c_taskId c)
      \<and> distinct (map c_ref (awaiting st)))"

definition fields_ok :: "Task \<Rightarrow> bool" where
  "fields_ok t = ((result t \<noteq> None \<longrightarrow> status t = Completed) \<and> (error t \<noteq> None \<longrightarrow> status t = Failed))"

definition inv :: "gen_state \<Rightarrow> bool" where
  "inv st =
     (refs_ok st \<and> calls_ok st
      \<and> (\<forall>t \<in> set (heap st). fields_ok t \<and> status t \<noteq> Pending)
      \<and> length (activeTasks st) \<le> MAX_CONCURRENT_TASKS)"

text \<open>The record that an accepted POST leaves in the heap when it returns.\<close>

definition admitted_task :: "post_request \<Rightarrow> Task" where
  "admitted_task rq =
     \<lparr>id_t = rq_uuid rq,
      type_t = (case rq_body rq of
                  None \<Rightarrow> TVideo
                | Some b \<Rightarrow> if b_type b = JStr ''image'' then TImage else TVideo),
      status = (if falsy_str (rq_apiKey rq) then Failed else Processing),
      progress = 0,
      result = None,
      error = (if falsy_str (rq_apiKey rq) then Some ''RUNWAY_API_KEY is not configured'' else None),
      createdAt = rq_created rq\<rparr>"

text \<open>What a step does to the heap, the store, the suspended calls and the timers.\<close>

definition unchanged :: "gen_state \<Rightarrow> gen_state \<Rightarrow> bool" where
  "unchanged st st' =
     (heap st' = heap st \<and> tasks st' = tasks st \<and> awaiting st' = awaiting st
      \<and> timers st' = timers st)"

definition admitted :: "gen_state \<Rightarrow> post_request \<Rightarrow> gen_state \<Rightarrow> bool" where
  "admitted st rq st' =
     (heap st' = heap st @ [admitted_task rq]
      \<and> tasks st' = AList.update (rq_uuid rq) (length (heap st)) (tasks st)
      \<and> awaiting st' =
          (if falsy_str (rq_apiKey rq) then awaiting st
           else awaiting st @ [\<lparr>c_ref = length (heap st), c_taskId = rq_uuid rq,
                  c_type = type_t (admitted_task rq), c_prompt = b_prompt (the (rq_body rq))\<rparr>])
      \<and> timers st' =
          (if falsy_str (rq_apiKey rq) then timers st @ [(rq_uuid rq, 900000)] else timers st)
      \<and> length (activeTasks st) < MAX_CONCURRENT_TASKS)"

section \<open>Invariant of the rate limiter's map\<close>

definition rl_inv :: "RateLimit \<Rightarrow> bool" where
  "rl_inv rl = (\<forall>k e. store rl k = Some e \<longrightarrow> 1 \<le> count e \<and> count e \<le> limit rl)"

section \<open>Notions used to state the properties\<close>

definition limiter_admits :: "gen_state \<Rightarrow> post_request \<Rightarrow> bool" where
  "limiter_admits st rq = snd (POST_limit st rq)"

text \<open>The body passes the three validation tests of POST, in the code's terms.\<close>

definition passes_validation :: "post_body \<Rightarrow> bool" where
  "passes_validation b =
     (truthy (b_type b) \<and> truthy (b_prompt b)
      \<and> (b_type b = JStr ''image'' \<or> b_type b = JStr ''video'')
      \<and> \<not> length_exceeds (b_prompt b))"




definition std_inherited :: "string \<Rightarrow> bool" where
  \<comment> \<open>the names a plain object inherits when \<open>Object.prototype\<close> is as the language defines it\<close>
  "std_inherited k = (k \<in> set Object_prototype_members)"

section \<open>Sample requests and event sequences\<close>


definition demo_ops :: "rl_op list" where
  "demo_ops = [Check ''a'' 5, Check ''a'' 6, Check ''b'' 7, Cleanup 9, Check ''a'' 10]"

definition good_rq :: "string \<Rightarrow> post_request" where
  "good_rq u =
     \<lparr>rq_forwarded_for = Some ''10.0.0.1'',
      rq_body = Some \<lparr>b_type = JStr ''video'', b_prompt = JStr ''a cat dancing''\<rparr>,
      rq_now = 1000, rq_created = 1001, rq_uuid = u, rq_apiKey = Some ''key''\<rparr>"

definition no_prompt_rq :: post_request where
  "no_prompt_rq =
     \<lparr>rq_forwarded_for = Some ''10.0.0.1'',
      rq_body = Some \<lparr>b_type = JStr ''video'', b_prompt = JMissing\<rparr>,
      rq_now = 2000, rq_created = 2001, rq_uuid = ''t9'', rq_apiKey = Some ''key''\<rparr>"

definition five_posts :: "event list" where
  "five_posts =
     [EvPOST (good_rq ''t1''), EvPOST (good_rq ''t2''), EvPOST (good_rq ''t3''),
      EvPOST (good_rq ''t4''), EvPOST (good_rq ''t5'')]"


definition interleaved_posts :: "event list" where
  \<comment> \<open>six requests pass the rate limiter before the first of them resumes\<close>
  "interleaved_posts =
     [EvArrive (good_rq ''a1''), EvArrive (good_rq ''a2''), EvArrive (good_rq ''a3''),
      EvArrive (good_rq ''a4''), EvArrive (good_rq ''a5''), EvArrive (good_rq ''a6''),
      EvParsed 0, EvParsed 0, EvParsed 0, EvParsed 0, EvParsed 0, EvParsed 0]"

definition number_prompt_rq :: post_request where
  \<comment> \<open>a body such as \<open>{"type": "video", "prompt": 7}\<close>\<close>
  "number_prompt_rq =
     \<lparr>rq_forwarded_for = Some ''10.0.0.1'',
      rq_body = Some \<lparr>b_type = JStr ''video'', b_prompt = JOther True False\<rparr>,
      rq_now = 1000, rq_created = 1001, rq_uuid = ''t1'', rq_apiKey = Some ''key''\<rparr>"

definition video_get_no_key :: video_get where
  "video_get_no_key =
     \<lparr>vg_taskId = Some ''v1'', vg_apiKey = None,
      vg_upstream = SData \<lparr>u_status = Some ''RUNNING'', u_output = None, u_error = None\<rparr>\<rparr>"

definition vpost_ok :: video_post where
  "vpost_ok =
     \<lparr>vp_form = Some \<lparr>f_image = FileEntry ''image/png'', f_prompt = TextEntry ''a cat dancing''\<rparr>,
      vp_apiKey = Some ''key'', vp_sdk = SdkCreated ''v1'',
      vp_direct = DThrew ''unreachable'', vp_now = 1000\<rparr>"

definition vget :: "string \<Rightarrow> string option \<Rightarrow> string option \<Rightarrow> video_get" where
  "vget s out e =
     \<lparr>vg_taskId = Some ''v1'', vg_apiKey = Some ''key'',
      vg_upstream = SData \<lparr>u_status = Some s, u_output = out, u_error = e\<rparr>\<rparr>"

definition settle_ok :: event where
  "settle_ok = EvSettled 0 (OkData (Some ''https://cdn.example/v.mp4''))"

definition video_get_unknown :: video_get where
  "video_get_unknown =
     \<lparr>vg_taskId = Some ''no-such-task'', vg_apiKey = Some ''key'',
      vg_upstream = SNotOk 404 ''Not found''\<rparr>"

definition vpost_pdf :: video_post where
  "vpost_pdf =
     \<lparr>vp_form = Some \<lparr>f_image = FileEntry ''application/pdf'', f_prompt = TextEntry ''a cat dancing''\<rparr>,
      vp_apiKey = Some ''key'', vp_sdk = SdkCreated ''v1'',
      vp_direct = DThrew ''unreachable'', vp_now = 1000\<rparr>"

definition vpost_sync_pdf :: video_post_sync where
  "vpost_sync_pdf =
     \<lparr>vs_form = Some \<lparr>f_image = FileEntry ''application/pdf'', f_prompt = TextEntry ''a cat dancing''\<rparr>,
      vs_apiKey = Some ''key'',
      vs_sdk = SdkOutput ''v1'' [''https://cdn.example/v.mp4''], vs_direct = DThrew ''unreachable''\<rparr>"

definition vpost_no_key :: video_post where
  "vpost_no_key =
     \<lparr>vp_form = Some \<lparr>f_image = FileEntry ''image/png'', f_prompt = TextEntry ''a cat dancing''\<rparr>,
      vp_apiKey = None, vp_sdk = SdkCreated ''v1'',
      vp_direct = DCreated ''v1'' (Some ''PENDING''), vp_now = 1000\<rparr>"

definition vpost_sync_no_key :: video_post_sync where
  "vpost_sync_no_key =
     \<lparr>vs_form = Some \<lparr>f_image = FileEntry ''image/png'', f_prompt = TextEntry ''a cat dancing''\<rparr>,
      vs_apiKey = None, vs_sdk = SdkOutput ''v1'' [''https://cdn.example/v.mp4''],
      vs_direct = DCreated ''v1'' (Some ''PENDING'')\<rparr>"

section \<open>Properties of the rate limiter\<close>


lemma check_limit: "limit (fst (check rl k now)) = limit rl"
  by (simp add: check_def Let_def split: option.splits)

lemma check_windowMs: "windowMs (fst (check rl k now)) = windowMs rl"
  by (simp add: check_def Let_def split: option.splits)









lemma rl_inv_check: "1 \<le> limit rl \<Longrightarrow> rl_inv rl \<Longrightarrow> rl_inv (fst (check rl key now))"
  unfolding rl_inv_def check_def Let_def
  by (fastforce split: option.splits if_splits)

lemma rl_inv_cleanup: "rl_inv rl \<Longrightarrow> rl_inv (cleanup rl now)"
  unfolding rl_inv_def cleanup_def
  by (auto split: option.splits if_splits)

lemma cleanup_limit: "limit (cleanup rl now) = limit rl"
  by (simp add: cleanup_def)

lemma rl_step_limit: "limit (rl_step rl op) = limit rl"
  by (cases op) (simp_all add: check_limit cleanup_limit)

lemma rl_inv_step: "1 \<le> limit rl \<Longrightarrow> rl_inv rl \<Longrightarrow> rl_inv (rl_step rl op)"
  by (cases op) (simp_all add: rl_inv_check rl_inv_cleanup)

lemma rl_inv_run: "1 \<le> limit rl \<Longrightarrow> rl_inv rl \<Longrightarrow> rl_inv (rl_run rl ops)"
proof (induction ops arbitrary: rl)
  case Nil
  then show ?case by simp
next
  case (Cons op ops)
  have "rl_inv (rl_run (rl_step rl op) ops)"
    using Cons.IH[of "rl_step rl op"] Cons.prems by (simp add: rl_step_limit rl_inv_step)
  then show ?case by simp
qed

lemma rl_run_limit: "limit (rl_run rl ops) = limit rl"
  by (induction ops arbitrary: rl) (simp_all add: rl_step_limit)

lemma check_failure_unchanged: "\<not> success (snd (check rl key now)) \<Longrightarrow> fst (check rl key now) = rl"
  by (auto simp: check_def Let_def split: option.splits if_splits)

text \<open>
  Claim C9. Whatever calls of \<open>check\<close> and \<open>cleanup\<close> are made on a limiter that starts
  empty, with a limit of at least 1 (the exported limiter has 10), no stored count exceeds
  the limit; and a call of \<open>check\<close> that fails leaves the limiter, so also the entry of its
  key, as it was.
\<close>

theorem rate_limit_count_bounded:
  assumes "1 \<le> limit rl" and "store rl = Map.empty"
  shows "(\<forall>e. store (rl_run rl ops) k = Some e \<longrightarrow> count e \<le> limit rl)
       \<and> (\<forall>rl' now. \<not> success (snd (check rl' k now)) \<longrightarrow> fst (check rl' k now) = rl')"
proof -
  have "rl_inv rl" using assms(2) by (simp add: rl_inv_def)
  then have "rl_inv (rl_run rl ops)" using assms(1) by (rule rl_inv_run[rotated])
  then show ?thesis by (auto simp: rl_inv_def rl_run_limit check_failure_unchanged)
qed

theorem rate_limit_count_bounded_witness:
  "store (rl_run rateLimit demo_ops) ''a'' = Some \<lparr>count = 3, resetTime = 60005\<rparr>
   \<and> count \<lparr>count = 3, resetTime = 60005\<rparr> \<le> limit rateLimit"
proof -
  have h1: "1 \<le> limit rateLimit" by (simp add: rateLimit_def new_RateLimit_def)
  have h2: "store rateLimit = Map.empty" by (simp add: rateLimit_def new_RateLimit_def)
  have v: "store (rl_run rateLimit demo_ops) ''a'' = Some \<lparr>count = 3, resetTime = 60005\<rparr>"
    by (simp add: demo_ops_def rateLimit_def new_RateLimit_def check_def cleanup_def Let_def)
  show ?thesis using rate_limit_count_bounded[OF h1 h2, of demo_ops "''a''"] v by blast
qed

section \<open>What each step does to the task store\<close>

lemma unchanged_refl: "unchanged st st"
  by (simp add: unchanged_def)

lemma POST_limit_unchanged: "unchanged st (fst (POST_limit st rq))"
  by (simp add: POST_limit_def unchanged_def Let_def split: prod.splits)

lemma POST_limit_parsing: "parsing (fst (POST_limit st rq)) = parsing st"
  by (simp add: POST_limit_def Let_def split: prod.splits)

lemma POST_rest_rejected:
  "http_status (snd (POST_rest st rq)) \<noteq> 200 \<Longrightarrow> fst (POST_rest st rq) = st"
  by (auto simp: POST_rest_def Let_def err_def split: option.splits if_splits)

lemma POST_rest_accepted:
  "http_status (snd (POST_rest st rq)) = 200 \<Longrightarrow> admitted st rq (fst (POST_rest st rq))"
  by (auto simp: POST_rest_def Let_def err_def processTask_def set_task_def fail_task_def
      admitted_task_def admitted_def update_conv' split: option.splits if_splits)

lemma admitted_cong:
  "unchanged st0 st \<Longrightarrow> admitted st rq st' \<Longrightarrow> admitted st0 rq st'"
  by (simp add: unchanged_def admitted_def activeTasks_def)

lemma POST_rejected:
  "http_status (snd (POST st rq)) \<noteq> 200 \<Longrightarrow> unchanged st (fst (POST st rq))"
  using POST_limit_unchanged[of st rq] POST_rest_rejected[of "fst (POST_limit st rq)" rq]
  by (auto simp: POST_def Let_def split: prod.splits if_splits)

lemma POST_accepted:
  "http_status (snd (POST st rq)) = 200 \<Longrightarrow> admitted st rq (fst (POST st rq))"
  using POST_limit_unchanged[of st rq] POST_rest_accepted[of "fst (POST_limit st rq)" rq]
  by (auto simp: POST_def Let_def err_def split: prod.splits if_splits intro: admitted_cong)

lemma step_effect:
  "unchanged st (step st e)
   \<or> (\<exists>rq. admitted st rq (step st e))
   \<or> (\<exists>i out. e = EvSettled i out \<and> i < length (awaiting st))
   \<or> (\<exists>i. e = EvTimer i \<and> i < length (timers st))"
proof (cases e)
  case (EvPOST rq)
  then show ?thesis using POST_rejected[of st rq] POST_accepted[of st rq] by auto
next
  case (EvArrive rq)
  then show ?thesis using POST_limit_unchanged[of st rq]
    by (auto simp: unchanged_def Let_def split: prod.splits)
next
  case (EvParsed i)
  show ?thesis
  proof (cases "i < length (parsing st)")
    case False
    then show ?thesis using EvParsed by (simp add: unchanged_refl)
  next
    case True
    let ?st0 = "st\<lparr>parsing := remove_nth i (parsing st)\<rparr>"
    let ?rq = "parsing st ! i"
    have u: "unchanged st ?st0" by (simp add: unchanged_def)
    have s: "step st e = fst (POST_rest ?st0 ?rq)" using True EvParsed by simp
    show ?thesis
    proof (cases "http_status (snd (POST_rest ?st0 ?rq)) = 200")
      case True
      have "admitted st ?rq (step st e)"
        using admitted_cong[OF u POST_rest_accepted[OF True]] s by simp
      then show ?thesis by blast
    next
      case False
      then show ?thesis using POST_rest_rejected[OF False] u s by simp
    qed
  qed
next
  case (EvGET q)
  then show ?thesis by (simp add: unchanged_refl)
next
  case (EvSettled i out)
  then show ?thesis by (cases "i < length (awaiting st)") (simp_all add: unchanged_refl)
next
  case (EvTimer i)
  then show ?thesis by (cases "i < length (timers st)") (simp_all add: unchanged_refl)
qed

section \<open>The invariant is kept by every step\<close>

lemma set_AList_update: "set (AList.update k v al) \<subseteq> insert (k, v) (set al)"
  by (induction al) auto

lemma set_AList_delete: "set (AList.delete k al) \<subseteq> set al"
  by (induction al) auto

lemma map_heap_append:
  "\<forall>p \<in> set al. snd p < length h \<Longrightarrow>
   map (\<lambda>(k, r). (h @ [t]) ! r) al = map (\<lambda>(k, r). h ! r) al"
  by (induction al) (auto simp: nth_append)

lemma active_update:
  "\<forall>p \<in> set al. snd p < length h \<Longrightarrow>
   length (filter P (map (\<lambda>(k, r). (h @ [t]) ! r) (AList.update k (length h) al)))
     \<le> Suc (length (filter P (map (\<lambda>(k, r). h ! r) al)))"
proof (induction al)
  case Nil
  then show ?case by simp
next
  case (Cons p al)
  have "map (\<lambda>(k, r). (h @ [t]) ! r) al = map (\<lambda>(k, r). h ! r) al"
    using Cons.prems by (simp add: map_heap_append)
  then have rest: "length (filter P (map (\<lambda>(k, r). (h @ [t]) ! r) al))
      = length (filter P (map (\<lambda>(k, r). h ! r) al))"
    by (simp only:)
  have hd: "(h @ [t]) ! snd p = h ! snd p" using Cons.prems by (simp add: nth_append)
  show ?case
  proof (cases "fst p = k")
    case True
    then show ?thesis using rest by (cases p) simp
  next
    case False
    then show ?thesis using Cons.IH Cons.prems hd by (cases p) simp
  qed
qed

lemma active_heap_mono:
  "\<forall>p \<in> set al. P (h' ! snd p) \<longrightarrow> P (h ! snd p) \<Longrightarrow>
   length (filter P (map (\<lambda>(k, r). h' ! r) al)) \<le> length (filter P (map (\<lambda>(k, r). h ! r) al))"
  by (induction al) auto

lemma active_delete:
  "length (filter P (map g (AList.delete k al))) \<le> length (filter P (map g al))"
  by (induction al) auto

lemma remove_nth_set: "set (remove_nth i xs) \<subseteq> set xs"
  unfolding remove_nth_def using set_take_subset[of i xs] set_drop_subset[of "Suc i" xs] by auto

lemma remove_nth_distinct:
  assumes "distinct (map f xs)" "i < length xs"
  shows "distinct (map f (remove_nth i xs)) \<and> (\<forall>x \<in> set (remove_nth i xs). f x \<noteq> f (xs ! i))"
proof -
  have "xs = take i xs @ xs ! i # drop (Suc i) xs" using assms(2) by (rule id_take_nth_drop)
  then have "distinct (map f (take i xs @ xs ! i # drop (Suc i) xs))" using assms(1) by simp
  then show ?thesis unfolding remove_nth_def by (fastforce simp: image_iff)
qed

lemma resume_cases:
  "(\<exists>url. url \<noteq> [] \<and> out = OkData (Some url)
      \<and> processTask_resume st c out =
          st\<lparr>heap := (heap st)[c_ref c := (heap st ! c_ref c)\<lparr>status := Completed, progress := 100, result := Some url\<rparr>],
             timers := timers st @ [(c_taskId c, 3600000)]\<rparr>)
   \<or> (\<exists>msg. processTask_resume st c out =
          st\<lparr>heap := (heap st)[c_ref c := (heap st ! c_ref c)\<lparr>status := Failed, error := Some msg\<rparr>],
             timers := timers st @ [(c_taskId c, 900000)]\<rparr>)"
proof (cases out)
  case (OkData x)
  then show ?thesis
    by (cases x) (auto simp: processTask_resume_def fail_task_def complete_task_def set_task_def)
qed (auto simp: processTask_resume_def fail_task_def set_task_def)

lemma inv_unchanged: "unchanged st st' \<Longrightarrow> inv st \<Longrightarrow> inv st'"
  by (simp add: unchanged_def inv_def refs_ok_def calls_ok_def activeTasks_def)

lemma admitted_task_ok: "fields_ok (admitted_task rq) \<and> status (admitted_task rq) \<noteq> Pending"
  by (simp add: fields_ok_def admitted_task_def)

lemma inv_admitted:
  assumes "inv st" and a: "admitted st rq st'"
  shows "inv st'"
proof -
  have h: "heap st' = heap st @ [admitted_task rq]"
    and t: "tasks st' = AList.update (rq_uuid rq) (length (heap st)) (tasks st)"
    and w: "awaiting st' =
          (if falsy_str (rq_apiKey rq) then awaiting st
           else awaiting st @ [\<lparr>c_ref = length (heap st), c_taskId = rq_uuid rq,
                  c_type = type_t (admitted_task rq), c_prompt = b_prompt (the (rq_body rq))\<rparr>])"
    and n: "length (activeTasks st) < MAX_CONCURRENT_TASKS"
    using a by (simp_all add: admitted_def)
  have r: "refs_ok st" and c: "calls_ok st" using assms(1) by (simp_all add: inv_def)
  have 1: "refs_ok st'"
    using r set_AList_update[of "rq_uuid rq" "length (heap st)" "tasks st"]
    unfolding refs_ok_def h t by fastforce
  have 2: "calls_ok st'"
    using c unfolding calls_ok_def h w
    by (auto simp: nth_append admitted_task_def)
  have 3: "\<forall>t \<in> set (heap st'). fields_ok t \<and> status t \<noteq> Pending"
    using assms(1) admitted_task_ok[of rq] unfolding h inv_def by auto
  have "length (activeTasks st') \<le> Suc (length (activeTasks st))"
    unfolding activeTasks_def h t
    using active_update[of "tasks st" "heap st"] r unfolding refs_ok_def by blast
  then have 4: "length (activeTasks st') \<le> MAX_CONCURRENT_TASKS" using n by simp
  show ?thesis using 1 2 3 4 by (simp add: inv_def)
qed

lemma inv_settled:
  assumes "inv st" and i: "i < length (awaiting st)"
  shows "inv (processTask_resume (st\<lparr>awaiting := remove_nth i (awaiting st)\<rparr>) (awaiting st ! i) out)"
proof -
  let ?c = "awaiting st ! i"
  let ?st0 = "st\<lparr>awaiting := remove_nth i (awaiting st)\<rparr>"
  let ?s = "processTask_resume ?st0 ?c out"
  have r: "refs_ok st" and c: "calls_ok st"
    and f: "\<forall>t \<in> set (heap st). fields_ok t \<and> status t \<noteq> Pending"
    and a: "length (activeTasks st) \<le> MAX_CONCURRENT_TASKS"
    using assms(1) by (simp_all add: inv_def)
  have cin: "?c \<in> set (awaiting st)" using i by simp
  then have cr: "c_ref ?c < length (heap st)" and cs: "status (heap st ! c_ref ?c) = Processing"
    using c by (simp_all add: calls_ok_def)
  have old: "fields_ok (heap st ! c_ref ?c)" using f cr by simp
  obtain t' where h: "heap ?s = (heap st)[c_ref ?c := t']"
    and t': "fields_ok t'" "terminal (status t')"
    and tk: "tasks ?s = tasks st" and aw: "awaiting ?s = remove_nth i (awaiting st)"
    using resume_cases[of out ?st0 ?c] old cs
    by (auto simp: fields_ok_def terminal_def)
  have d: "distinct (map c_ref (remove_nth i (awaiting st)))"
    and ne: "\<forall>x \<in> set (remove_nth i (awaiting st)). c_ref x \<noteq> c_ref ?c"
    using remove_nth_distinct[of c_ref "awaiting st" i] c i by (simp_all add: calls_ok_def)
  have 1: "refs_ok ?s" using r by (simp add: refs_ok_def h tk)
  have 2: "calls_ok ?s"
    unfolding calls_ok_def h aw
  proof (intro conjI ballI)
    fix x assume x: "x \<in> set (remove_nth i (awaiting st))"
    then have xin: "x \<in> set (awaiting st)" using remove_nth_set[of i "awaiting st"] by blast
    have "c_ref x \<noteq> c_ref ?c" using ne x by blast
    then have same: "(heap st)[c_ref ?c := t'] ! c_ref x = heap st ! c_ref x" by simp
    show "c_ref x < length ((heap st)[c_ref ?c := t'])" using c xin by (simp add: calls_ok_def)
    show "status ((heap st)[c_ref ?c := t'] ! c_ref x) = Processing"
      using c xin same by (simp add: calls_ok_def)
    show "id_t ((heap st)[c_ref ?c := t'] ! c_ref x) = c_taskId x"
      using c xin same by (simp add: calls_ok_def)
  next
    show "distinct (map c_ref (remove_nth i (awaiting st)))" by (rule d)
  qed
  have 3: "\<forall>t \<in> set (heap ?s). fields_ok t \<and> status t \<noteq> Pending"
  proof
    fix t assume "t \<in> set (heap ?s)"
    then have "t \<in> insert t' (set (heap st))"
      unfolding h using set_update_subset_insert by fastforce
    then show "fields_ok t \<and> status t \<noteq> Pending"
      using f t' by (auto simp: terminal_def)
  qed
  have "length (activeTasks ?s) \<le> length (activeTasks st)"
    unfolding activeTasks_def h tk
    by (rule active_heap_mono) (use t' cr in \<open>auto simp: nth_list_update terminal_def\<close>)
  then have 4: "length (activeTasks ?s) \<le> MAX_CONCURRENT_TASKS" using a by simp
  show ?thesis using 1 2 3 4 by (simp add: inv_def)
qed

lemma inv_timer:
  assumes "inv st"
  shows "inv (st\<lparr>timers := ts, tasks := AList.delete k (tasks st)\<rparr>)"
proof -
  have "length (activeTasks (st\<lparr>timers := ts, tasks := AList.delete k (tasks st)\<rparr>))
      \<le> length (activeTasks st)"
    unfolding activeTasks_def by (simp del: length_filter_map add: active_delete)
  then show ?thesis
    using assms set_AList_delete[of k "tasks st"]
    by (auto simp: inv_def refs_ok_def calls_ok_def)
qed

lemma inv_step:
  assumes "inv st"
  shows "inv (step st e)"
proof -
  consider (same) "unchanged st (step st e)"
    | (new) rq where "admitted st rq (step st e)"
    | (settled) i out where "e = EvSettled i out" "i < length (awaiting st)"
    | (timer) i where "e = EvTimer i" "i < length (timers st)"
    using step_effect[of st e] by blast
  then show ?thesis
  proof cases
    case same
    then show ?thesis using assms by (rule inv_unchanged)
  next
    case new
    show ?thesis using assms new by (rule inv_admitted)
  next
    case settled
    then show ?thesis using inv_settled[OF assms settled(2)] by simp
  next
    case timer
    then show ?thesis using inv_timer[OF assms] by simp
  qed
qed

lemma inv_run: "inv st \<Longrightarrow> inv (run st es)"
  by (induction es arbitrary: st) (simp_all add: inv_step)

lemma inv_init: "inv init_state"
  by (simp add: inv_def init_state_def refs_ok_def calls_ok_def activeTasks_def)

lemma inv_reachable: "inv (run init_state es)"
  by (simp add: inv_run inv_init)

lemma run_append: "run st (es @ es') = run (run st es) es'"
  by (induction es arbitrary: st) simp_all

section \<open>Statuses move forward\<close>

lemma status_fwd_refl: "status_fwd s s"
  by (cases s) simp_all

lemma status_fwd_trans: "status_fwd a b \<Longrightarrow> status_fwd b c \<Longrightarrow> status_fwd a c"
  by (cases a; cases b; cases c) simp_all

lemma status_fwd_terminal: "status_fwd a b \<Longrightarrow> terminal a \<Longrightarrow> b = a"
  by (cases a) (simp_all add: terminal_def)

lemma settled_heap:
  assumes "inv st" and i: "i < length (awaiting st)"
  obtains t' where
    "heap (step st (EvSettled i out)) = (heap st)[c_ref (awaiting st ! i) := t']"
    "tasks (step st (EvSettled i out)) = tasks st"
    "c_ref (awaiting st ! i) < length (heap st)"
    "status (heap st ! c_ref (awaiting st ! i)) = Processing"
    "id_t t' = id_t (heap st ! c_ref (awaiting st ! i))"
    "id_t t' = c_taskId (awaiting st ! i)"
    "status t' = Completed \<and> timers (step st (EvSettled i out)) = timers st @ [(id_t t', 3600000)]
     \<or> status t' = Failed \<and> timers (step st (EvSettled i out)) = timers st @ [(id_t t', 900000)]"
proof -
  let ?c = "awaiting st ! i"
  let ?st0 = "st\<lparr>awaiting := remove_nth i (awaiting st)\<rparr>"
  have "?c \<in> set (awaiting st)" using i by simp
  then have c: "c_ref ?c < length (heap st)" "status (heap st ! c_ref ?c) = Processing"
      "id_t (heap st ! c_ref ?c) = c_taskId ?c"
    using assms(1) by (simp_all add: inv_def calls_ok_def)
  have s: "step st (EvSettled i out) = processTask_resume ?st0 ?c out" using i by simp
  from resume_cases[of out ?st0 ?c] show ?thesis
  proof
    assume "\<exists>url. url \<noteq> [] \<and> out = OkData (Some url) \<and>
        processTask_resume ?st0 ?c out =
          ?st0\<lparr>heap := (heap ?st0)[c_ref ?c := (heap ?st0 ! c_ref ?c)\<lparr>status := Completed, progress := 100, result := Some url\<rparr>],
             timers := timers ?st0 @ [(c_taskId ?c, 3600000)]\<rparr>"
    then obtain url where e: "step st (EvSettled i out) =
          ?st0\<lparr>heap := (heap ?st0)[c_ref ?c := (heap ?st0 ! c_ref ?c)\<lparr>status := Completed, progress := 100, result := Some url\<rparr>],
             timers := timers ?st0 @ [(c_taskId ?c, 3600000)]\<rparr>"
      using s by auto
    show ?thesis
      by (rule that[of "(heap st ! c_ref ?c)\<lparr>status := Completed, progress := 100, result := Some url\<rparr>"])
         (use e c in simp_all)
  next
    assume "\<exists>msg. processTask_resume ?st0 ?c out =
          ?st0\<lparr>heap := (heap ?st0)[c_ref ?c := (heap ?st0 ! c_ref ?c)\<lparr>status := Failed, error := Some msg\<rparr>],
             timers := timers ?st0 @ [(c_taskId ?c, 900000)]\<rparr>"
    then obtain msg where e: "step st (EvSettled i out) =
          ?st0\<lparr>heap := (heap ?st0)[c_ref ?c := (heap ?st0 ! c_ref ?c)\<lparr>status := Failed, error := Some msg\<rparr>],
             timers := timers ?st0 @ [(c_taskId ?c, 900000)]\<rparr>"
      using s by auto
    show ?thesis
      by (rule that[of "(heap st ! c_ref ?c)\<lparr>status := Failed, error := Some msg\<rparr>"])
         (use e c in simp_all)
  qed
qed

lemma step_heap:
  assumes "inv st" and r: "r < length (heap st)"
  shows "r < length (heap (step st e))
       \<and> status_fwd (status (heap st ! r)) (status (heap (step st e) ! r))
       \<and> id_t (heap (step st e) ! r) = id_t (heap st ! r)"
proof -
  consider (same) "unchanged st (step st e)"
    | (new) rq where "admitted st rq (step st e)"
    | (settled) i out where "e = EvSettled i out" "i < length (awaiting st)"
    | (timer) i where "e = EvTimer i" "i < length (timers st)"
    using step_effect[of st e] by blast
  then show ?thesis
  proof cases
    case same
    then show ?thesis using r by (simp add: unchanged_def status_fwd_refl)
  next
    case new
    then show ?thesis using r by (simp add: admitted_def nth_append status_fwd_refl)
  next
    case timer
    then show ?thesis using r by (simp add: status_fwd_refl)
  next
    case settled
    obtain t' where h: "heap (step st e) = (heap st)[c_ref (awaiting st ! i) := t']"
      and p: "status (heap st ! c_ref (awaiting st ! i)) = Processing"
      and d: "id_t t' = id_t (heap st ! c_ref (awaiting st ! i))"
      and t: "status t' = Completed \<and> timers (step st (EvSettled i out)) = timers st @ [(id_t t', 3600000)]
           \<or> status t' = Failed \<and> timers (step st (EvSettled i out)) = timers st @ [(id_t t', 900000)]"
      using settled_heap[OF assms(1) settled(2), of out] settled(1) by metis
    show ?thesis
    proof (cases "r = c_ref (awaiting st ! i)")
      case True
      then have "heap (step st e) ! r = t'" using r h by simp
      then show ?thesis using True r h p d t by auto
    next
      case False
      then have "heap (step st e) ! r = heap st ! r" using h by simp
      then show ?thesis using r h by (simp add: status_fwd_refl)
    qed
  qed
qed

lemma run_heap:
  "inv st \<Longrightarrow> r < length (heap st) \<Longrightarrow>
   r < length (heap (run st es))
   \<and> status_fwd (status (heap st ! r)) (status (heap (run st es) ! r))
   \<and> id_t (heap (run st es) ! r) = id_t (heap st ! r)"
proof (induction es arbitrary: st)
  case Nil
  then show ?case by (simp add: status_fwd_refl)
next
  case (Cons e es)
  note s = step_heap[OF Cons.prems, of e]
  have i: "inv (step st e)" using Cons.prems(1) by (rule inv_step)
  from s have r': "r < length (heap (step st e))" by simp
  show ?case using Cons.IH[OF i r'] s by (auto intro: status_fwd_trans)
qed

section \<open>The status sequence of a task\<close>

text \<open>The definitions that a run of the model on concrete inputs unfolds.\<close>

lemmas eval_defs = POST_def POST_limit_def POST_rest_def client_key_def check_def Let_def err_def
  processTask_def set_task_def fail_task_def complete_task_def processTask_resume_def
  activeTasks_def init_state_def rateLimit_def new_RateLimit_def
  MAX_CONCURRENT_TASKS_def MAX_PROMPT_LENGTH_def remove_nth_def

lemmas video_eval_defs = POST_video_def GET_video_def fallback_def formData_again_def new_video_task_def
  update_video_task_def progress_of_def startsWith_def Let_def

lemma GET_video_store:
  assumes "\<not> falsy_str (vg_taskId rq)" "\<not> falsy_str (vg_apiKey rq)" "vg_upstream rq = SData d"
  shows "fst (GET_video vs rq) =
           (case map_of vs (the (vg_taskId rq)) of
              None \<Rightarrow> vs
            | Some vt \<Rightarrow> AList.update (the (vg_taskId rq)) (update_video_task d vt) vs)"
  using assms by (simp add: GET_video_def Let_def split: option.splits)

lemma GET_video_store_other:
  "falsy_str (vg_taskId rq) \<or> falsy_str (vg_apiKey rq) \<or> (\<forall>d. vg_upstream rq \<noteq> SData d) \<Longrightarrow>
   fst (GET_video vs rq) = vs"
  by (cases "vg_upstream rq") (auto simp: GET_video_def Let_def)

lemma update_video_task_status: "v_status (update_video_task d vt) = u_status d"
  by (simp add: update_video_task_def Let_def)

text \<open>
  Claim C1, as amended. In the task store of /api/generate every record moves only
  forward along \<open>pending \<rightarrow> processing \<rightarrow> {completed, failed}\<close>: between any two points of any
  run of the server (requests, settled upstream calls and timers in any order) the status
  of a record is unchanged or further along, and a record in a terminal state keeps its
  status. A record that an accepted POST has created is \<open>processing\<close> or \<open>failed\<close> when POST
  returns. The store of /api/generate-video is different: its GET overwrites the status
  of the entry with the status the upstream reports, whatever the entry held.
\<close>

theorem task_status_forward:
  assumes "r < length (heap (run init_state es))"
  shows "r < length (heap (run init_state (es @ es')))
       \<and> status_fwd (status (heap (run init_state es) ! r))
            (status (heap (run init_state (es @ es')) ! r))
       \<and> (terminal (status (heap (run init_state es) ! r)) \<longrightarrow>
            status (heap (run init_state (es @ es')) ! r) = status (heap (run init_state es) ! r))
       \<and> (\<forall>st rq. http_status (snd (POST st rq)) = 200 \<longrightarrow>
            heap (fst (POST st rq)) = heap st @ [admitted_task rq]
            \<and> (status (admitted_task rq) = Processing \<or> status (admitted_task rq) = Failed))
       \<and> (\<forall>vs rq d vt.
            \<not> falsy_str (vg_taskId rq) \<and> \<not> falsy_str (vg_apiKey rq)
            \<and> vg_upstream rq = SData d \<and> map_of vs (the (vg_taskId rq)) = Some vt \<longrightarrow>
            map_of (fst (GET_video vs rq)) (the (vg_taskId rq)) = Some (update_video_task d vt)
            \<and> v_status (update_video_task d vt) = u_status d)"
proof -
  note h = run_heap[OF inv_reachable assms, of es']
  have 1: "r < length (heap (run init_state (es @ es')))" using h by (simp add: run_append)
  have 2: "status_fwd (status (heap (run init_state es) ! r))
            (status (heap (run init_state (es @ es')) ! r))" using h by (simp add: run_append)
  have 3: "terminal (status (heap (run init_state es) ! r)) \<longrightarrow>
            status (heap (run init_state (es @ es')) ! r) = status (heap (run init_state es) ! r)"
    using status_fwd_terminal[OF 2] by blast
  have 4: "\<forall>st rq. http_status (snd (POST st rq)) = 200 \<longrightarrow>
            heap (fst (POST st rq)) = heap st @ [admitted_task rq]
            \<and> (status (admitted_task rq) = Processing \<or> status (admitted_task rq) = Failed)"
    using POST_accepted by (simp add: admitted_def admitted_task_def)
  have 5: "\<forall>vs rq d vt.
            \<not> falsy_str (vg_taskId rq) \<and> \<not> falsy_str (vg_apiKey rq)
            \<and> vg_upstream rq = SData d \<and> map_of vs (the (vg_taskId rq)) = Some vt \<longrightarrow>
            map_of (fst (GET_video vs rq)) (the (vg_taskId rq)) = Some (update_video_task d vt)
            \<and> v_status (update_video_task d vt) = u_status d"
    by (simp add: GET_video_store update_conv' update_video_task_status)
  show ?thesis using 1 2 3 4 5 by blast
qed

theorem task_status_forward_witness:
  "status (heap (run init_state [EvPOST (good_rq ''t1'')]) ! 0) = Processing
   \<and> status (heap (run init_state ([EvPOST (good_rq ''t1'')] @ [settle_ok, EvTimer 0])) ! 0) = Completed
   \<and> status_fwd (status (heap (run init_state [EvPOST (good_rq ''t1'')]) ! 0))
        (status (heap (run init_state ([EvPOST (good_rq ''t1'')] @ [settle_ok, EvTimer 0])) ! 0))"
proof -
  have h: "0 < length (heap (run init_state [EvPOST (good_rq ''t1'')]))"
    by (simp add: eval_defs good_rq_def)
  have a: "status (heap (run init_state [EvPOST (good_rq ''t1'')]) ! 0) = Processing"
    by (simp add: eval_defs good_rq_def)
  have b: "status (heap (run init_state ([EvPOST (good_rq ''t1'')] @ [settle_ok, EvTimer 0])) ! 0) = Completed"
    by (simp add: eval_defs good_rq_def settle_ok_def)
  show ?thesis
    using task_status_forward[OF h, of "[settle_ok, EvTimer 0]"] a b by blast
qed

text \<open>
  Against claim C1 as stated: in the store of /api/generate-video an entry that a GET has
  set to \<open>FAILED\<close> is set to \<open>RUNNING\<close> by the next GET, when the upstream reports so.
\<close>

theorem video_status_overwritten:
  "v_status (the (map_of (video_run [] [VPost vpost_ok, VGet (vget ''FAILED'' None (Some ''boom''))]) ''v1''))
     = Some ''FAILED''
   \<and> v_status (the (map_of (video_run []
        [VPost vpost_ok, VGet (vget ''FAILED'' None (Some ''boom'')), VGet (vget ''RUNNING'' None None)]) ''v1''))
     = Some ''RUNNING''"
  by (simp add: video_eval_defs vpost_ok_def vget_def)

section \<open>Result and error against status\<close>

lemma fallback_throws:
  "fallback vs rq e calls = (vs, \<lparr>v_http = 500, v_payload = VBothFailed e TypeError\<rparr>, calls)"
  by (simp add: fallback_def formData_again_def split: option.splits)

lemma fallback_sync_throws:
  "fallback_sync rq e calls = (\<lparr>v_http = 500, v_payload = VBothFailed e TypeError\<rparr>, calls)"
  by (simp add: fallback_sync_def formData_again_def split: option.splits)

lemma POST_video_store:
  "fst (POST_video vs rq) = vs
   \<or> (\<exists>tid s. fst (POST_video vs rq) = AList.update tid (new_video_task tid s (vp_now rq)) vs)"
  by (auto simp: POST_video_def fallback_throws
      split: option.splits form_entry.splits sdk_outcome.splits)

lemma new_video_task_fields: "videoUrl (new_video_task tid s t) = None \<and> v_error (new_video_task tid s t) = None"
  by (simp add: new_video_task_def)

lemma update_video_task_fields:
  "(videoUrl (update_video_task d vt) = videoUrl vt \<or> v_status (update_video_task d vt) = Some ''SUCCEEDED'')
   \<and> (v_error (update_video_task d vt) = v_error vt \<or> v_status (update_video_task d vt) = Some ''FAILED'')"
  by (simp add: update_video_task_def Let_def)

lemma video_step_fields:
  assumes "map_of (video_step vs e) tid = Some vt'"
  shows "(videoUrl vt' \<noteq> None \<longrightarrow>
            v_status vt' = Some ''SUCCEEDED'' \<or> (\<exists>vt. map_of vs tid = Some vt \<and> videoUrl vt = videoUrl vt'))
       \<and> (v_error vt' \<noteq> None \<longrightarrow>
            v_status vt' = Some ''FAILED'' \<or> (\<exists>vt. map_of vs tid = Some vt \<and> v_error vt = v_error vt'))"
proof (cases e)
  case (VPost rq)
  from POST_video_store[of vs rq] show ?thesis
  proof
    assume "fst (POST_video vs rq) = vs"
    then show ?thesis using assms VPost by simp
  next
    assume "\<exists>t s. fst (POST_video vs rq) = AList.update t (new_video_task t s (vp_now rq)) vs"
    then obtain t s where u: "fst (POST_video vs rq) = AList.update t (new_video_task t s (vp_now rq)) vs"
      by blast
    show ?thesis using assms VPost u new_video_task_fields[of t s "vp_now rq"]
      by (cases "tid = t") (auto simp: update_conv')
  qed
next
  case (VGet rq)
  show ?thesis
  proof (cases "falsy_str (vg_taskId rq) \<or> falsy_str (vg_apiKey rq) \<or> (\<forall>d. vg_upstream rq \<noteq> SData d)")
    case True
    then show ?thesis using assms VGet GET_video_store_other[OF True, of vs] by simp
  next
    case False
    then obtain d where d: "vg_upstream rq = SData d" by blast
    have s: "fst (GET_video vs rq) =
           (case map_of vs (the (vg_taskId rq)) of
              None \<Rightarrow> vs
            | Some vt \<Rightarrow> AList.update (the (vg_taskId rq)) (update_video_task d vt) vs)"
      using False d by (simp add: GET_video_store)
    show ?thesis
    proof (cases "map_of vs (the (vg_taskId rq))")
      case None
      then show ?thesis using assms VGet s by simp
    next
      case (Some vt)
      show ?thesis using assms VGet s Some update_video_task_fields[of d vt]
        by (cases "tid = the (vg_taskId rq)") (auto simp: update_conv')
    qed
  qed
qed

text \<open>
  Claim C8, as amended. In the task store of /api/generate, at every point of every run, a
  record has a \<open>result\<close> only when it is \<open>completed\<close> and an \<open>error\<close> only when it is
  \<open>failed\<close>. In the store of /api/generate-video, a step that leaves an entry with a
  \<open>videoUrl\<close> it did not have before leaves it with the status \<open>SUCCEEDED\<close>, and a step that
  leaves it with an \<open>error\<close> it did not have before leaves it with the status \<open>FAILED\<close>;
  nothing there is said of the entry once a later step has overwritten its status.
\<close>

theorem result_error_match_status:
  assumes "r < length (heap (run init_state es))"
  shows "(result (heap (run init_state es) ! r) \<noteq> None \<longrightarrow>
            status (heap (run init_state es) ! r) = Completed)
       \<and> (error (heap (run init_state es) ! r) \<noteq> None \<longrightarrow>
            status (heap (run init_state es) ! r) = Failed)
       \<and> (\<forall>vs e tid vt'. map_of (video_step vs e) tid = Some vt' \<longrightarrow>
            (videoUrl vt' \<noteq> None \<longrightarrow>
               v_status vt' = Some ''SUCCEEDED''
               \<or> (\<exists>vt. map_of vs tid = Some vt \<and> videoUrl vt = videoUrl vt'))
            \<and> (v_error vt' \<noteq> None \<longrightarrow>
               v_status vt' = Some ''FAILED''
               \<or> (\<exists>vt. map_of vs tid = Some vt \<and> v_error vt = v_error vt')))"
proof -
  have "inv (run init_state es)" by (rule inv_reachable)
  then have "fields_ok (heap (run init_state es) ! r)"
    using assms by (simp add: inv_def)
  then show ?thesis using video_step_fields by (simp add: fields_ok_def)
qed

theorem result_error_match_status_witness:
  "result (heap (run init_state [EvPOST (good_rq ''t1''), settle_ok]) ! 0)
     = Some ''https://cdn.example/v.mp4''
   \<and> status (heap (run init_state [EvPOST (good_rq ''t1''), settle_ok]) ! 0) = Completed"
proof -
  have h: "0 < length (heap (run init_state [EvPOST (good_rq ''t1''), settle_ok]))"
    by (simp add: eval_defs good_rq_def settle_ok_def)
  have a: "result (heap (run init_state [EvPOST (good_rq ''t1''), settle_ok]) ! 0)
     = Some ''https://cdn.example/v.mp4''"
    by (simp add: eval_defs good_rq_def settle_ok_def)
  show ?thesis using result_error_match_status[OF h] a by simp
qed

text \<open>
  Against claim C8 as stated: after the same three requests the entry still has the
  \<open>error\<close> written with \<open>FAILED\<close>, and its status is \<open>RUNNING\<close>.
\<close>

theorem video_error_outlives_status:
  "v_error (the (map_of (video_run []
        [VPost vpost_ok, VGet (vget ''FAILED'' None (Some ''boom'')), VGet (vget ''RUNNING'' None None)]) ''v1''))
     = Some ''boom''
   \<and> v_status (the (map_of (video_run []
        [VPost vpost_ok, VGet (vget ''FAILED'' None (Some ''boom'')), VGet (vget ''RUNNING'' None None)]) ''v1''))
     = Some ''RUNNING''"
  by (simp add: video_eval_defs vpost_ok_def vget_def)

section \<open>The concurrency cap, validation and the status query\<close>

lemma POST_full_store:
  assumes "length (activeTasks st) \<ge> MAX_CONCURRENT_TASKS"
  shows "http_status (snd (POST st rq)) \<in> {400, 429, 500}"
    and "limiter_admits st rq \<Longrightarrow> rq_body rq = Some b \<Longrightarrow> passes_validation b \<Longrightarrow>
         snd (POST st rq) =
           err 429 ''Maximum number of concurrent tasks reached. Please try again later.''"
  using assms
  by (auto simp: POST_def POST_rest_def POST_limit_def Let_def err_def limiter_admits_def
      passes_validation_def activeTasks_def split: prod.splits option.splits)

text \<open>
  Claim C2, as amended. At every point of every run at most 5 records of the store are
  \<open>pending\<close> or \<open>processing\<close>, so no POST raises the count above 5. When 5 or more are, POST
  admits nothing: it answers 400, 429 or 500 and leaves the heap, the store, the suspended
  calls and the timers as they were; the answer is the capacity error (429) whenever the
  limiter admits the request and its body passes validation, since those tests come first.
\<close>

theorem concurrency_cap:
  "length (activeTasks (run init_state es)) \<le> MAX_CONCURRENT_TASKS
   \<and> length (activeTasks (fst (POST (run init_state es) rq))) \<le> MAX_CONCURRENT_TASKS
   \<and> (\<forall>st. length (activeTasks st) \<ge> MAX_CONCURRENT_TASKS \<longrightarrow>
         http_status (snd (POST st rq)) \<in> {400, 429, 500}
         \<and> heap (fst (POST st rq)) = heap st \<and> tasks (fst (POST st rq)) = tasks st
         \<and> awaiting (fst (POST st rq)) = awaiting st \<and> timers (fst (POST st rq)) = timers st
         \<and> (limiter_admits st rq \<and> (\<exists>b. rq_body rq = Some b \<and> passes_validation b) \<longrightarrow>
              snd (POST st rq) =
                err 429 ''Maximum number of concurrent tasks reached. Please try again later.''))"
proof -
  have 1: "length (activeTasks (run init_state es)) \<le> MAX_CONCURRENT_TASKS"
    using inv_reachable[of es] by (simp add: inv_def)
  have "inv (step (run init_state es) (EvPOST rq))"
    using inv_reachable[of es] by (rule inv_step)
  then have 2: "length (activeTasks (fst (POST (run init_state es) rq))) \<le> MAX_CONCURRENT_TASKS"
    by (simp add: inv_def)
  have 3: "http_status (snd (POST st rq)) \<in> {400, 429, 500}
         \<and> heap (fst (POST st rq)) = heap st \<and> tasks (fst (POST st rq)) = tasks st
         \<and> awaiting (fst (POST st rq)) = awaiting st \<and> timers (fst (POST st rq)) = timers st
         \<and> (limiter_admits st rq \<and> (\<exists>b. rq_body rq = Some b \<and> passes_validation b) \<longrightarrow>
              snd (POST st rq) =
                err 429 ''Maximum number of concurrent tasks reached. Please try again later.'')"
    if full: "length (activeTasks st) \<ge> MAX_CONCURRENT_TASKS" for st
  proof -
    note a = POST_full_store(1)[OF full, of rq]
    then have "http_status (snd (POST st rq)) \<noteq> 200" by auto
    then have "unchanged st (fst (POST st rq))" by (rule POST_rejected)
    then show ?thesis using a POST_full_store(2)[OF full] by (auto simp: unchanged_def)
  qed
  show ?thesis using 1 2 3 by blast
qed

theorem concurrency_cap_witness:
  "length (activeTasks (run init_state five_posts)) = 5
   \<and> snd (POST (run init_state five_posts) (good_rq ''t6'')) =
       err 429 ''Maximum number of concurrent tasks reached. Please try again later.''
   \<and> tasks (fst (POST (run init_state five_posts) (good_rq ''t6''))) = tasks (run init_state five_posts)
   \<and> length (activeTasks (run init_state interleaved_posts)) = 5
   \<and> map fst (tasks (run init_state interleaved_posts)) = [''a1'', ''a2'', ''a3'', ''a4'', ''a5'']"
proof -
  have il: "length (activeTasks (run init_state interleaved_posts)) = 5
     \<and> map fst (tasks (run init_state interleaved_posts)) = [''a1'', ''a2'', ''a3'', ''a4'', ''a5'']"
    by (simp add: eval_defs interleaved_posts_def good_rq_def)
  have n: "length (activeTasks (run init_state five_posts)) = 5"
    by (simp add: eval_defs five_posts_def good_rq_def)
  then have full: "length (activeTasks (run init_state five_posts)) \<ge> MAX_CONCURRENT_TASKS"
    by (simp add: MAX_CONCURRENT_TASKS_def)
  have adm: "limiter_admits (run init_state five_posts) (good_rq ''t6'')"
    by (simp add: limiter_admits_def eval_defs good_rq_def five_posts_def)
  have val: "\<exists>b. rq_body (good_rq ''t6'') = Some b \<and> passes_validation b"
    by (simp add: good_rq_def passes_validation_def MAX_PROMPT_LENGTH_def)
  show ?thesis
    using concurrency_cap[of five_posts "good_rq ''t6''"] n full adm val il by blast
qed

text \<open>
  Against claim C2 as stated: with five tasks active, a request without a prompt is
  answered 400, not 429.
\<close>

theorem full_store_invalid_body_gets_400:
  "length (activeTasks (run init_state five_posts)) = 5
   \<and> snd (POST (run init_state five_posts) no_prompt_rq) = err 400 ''Type and prompt are required''"
  by (simp add: eval_defs no_prompt_rq_def five_posts_def good_rq_def)






lemma non_string_prompt_accepted:
  "snd (POST init_state number_prompt_rq) = \<lparr>http_status = 200, payload = TaskIdPayload ''t1''\<rparr>"
  by (simp add: eval_defs number_prompt_rq_def)

lemma GET_video_never_404: "v_http (fst (snd (GET_video vs rq))) \<in> {200, 400, 500}"
  by (cases "vg_upstream rq")
     (auto simp: GET_video_def Let_def split: option.splits)

lemma GET_video_ignores_store: "snd (GET_video vs rq) = snd (GET_video vs' rq)"
  by (cases "vg_upstream rq")
     (auto simp: GET_video_def Let_def split: option.splits)

text \<open>
  Claim C5, as amended. GET /api/generate, asked for a non-empty id that names no property
  inherited from \<open>Object.prototype\<close>: when the id is not a key of the store (never created,
  or deleted by its timer) the answer is 404 \<open>Task not found\<close>; when it is, the answer is 200
  with the current record. (An empty id is answered 400.) GET /api/generate-video does not
  answer from its store: its status is 200, 400 or 500, never 404.
\<close>

theorem status_query:
  assumes "tid \<noteq> []" and "\<not> inherited tid"
  shows "(map_of (tasks st) tid = None \<longrightarrow>
            GET inherited st (Some tid) = Answer (err 404 ''Task not found''))
       \<and> (\<forall>r. map_of (tasks st) tid = Some r \<longrightarrow>
            GET inherited st (Some tid) =
              Answer \<lparr>http_status = 200, payload = TaskPayload (heap st ! r)\<rparr>)
       \<and> (\<forall>i. i < length (timers st) \<and> fst (timers st ! i) = tid \<longrightarrow>
            GET inherited (step st (EvTimer i)) (Some tid) = Answer (err 404 ''Task not found''))
       \<and> (\<forall>vs rq. v_http (fst (snd (GET_video vs rq))) \<in> {200, 400, 500})
       \<and> (\<forall>vs vs' rq. snd (GET_video vs rq) = snd (GET_video vs' rq))"
proof -
  have a: "(map_of (tasks st) tid = None \<longrightarrow>
            GET inherited st (Some tid) = Answer (err 404 ''Task not found''))
       \<and> (\<forall>r. map_of (tasks st) tid = Some r \<longrightarrow>
            GET inherited st (Some tid) =
              Answer \<lparr>http_status = 200, payload = TaskPayload (heap st ! r)\<rparr>)
       \<and> (\<forall>i. i < length (timers st) \<and> fst (timers st ! i) = tid \<longrightarrow>
            GET inherited (step st (EvTimer i)) (Some tid) = Answer (err 404 ''Task not found''))
       \<and> (\<forall>vs rq. v_http (fst (snd (GET_video vs rq))) \<in> {200, 400, 500})"
    using assms GET_video_never_404
    by (auto simp: GET_def Let_def delete_conv')
  have b: "\<forall>vs vs' rq. snd (GET_video vs rq) = snd (GET_video vs' rq)"
    using GET_video_ignores_store by blast
  show ?thesis using a b by blast
qed

theorem status_query_witness:
  "GET std_inherited (run init_state [EvPOST (good_rq ''t1'')]) (Some ''t2'')
     = Answer (err 404 ''Task not found'')
   \<and> GET std_inherited (run init_state [EvPOST (good_rq ''t1'')]) (Some ''t1'')
     = Answer \<lparr>http_status = 200,
         payload = TaskPayload (heap (run init_state [EvPOST (good_rq ''t1'')]) ! 0)\<rparr>
   \<and> GET std_inherited (run init_state [EvPOST (good_rq ''t1''), settle_ok, EvTimer 0]) (Some ''t1'')
     = Answer (err 404 ''Task not found'')"
proof -
  have n1: "''t1'' \<noteq> []" and n2: "''t2'' \<noteq> []" by simp_all
  have i1: "\<not> std_inherited ''t1''" and i2: "\<not> std_inherited ''t2''"
    by (simp_all add: std_inherited_def Object_prototype_members_def)
  have m1: "map_of (tasks (run init_state [EvPOST (good_rq ''t1'')])) ''t1'' = Some 0"
    by (simp add: eval_defs good_rq_def)
  have m2: "map_of (tasks (run init_state [EvPOST (good_rq ''t1'')])) ''t2'' = None"
    by (simp add: eval_defs good_rq_def)
  have m3: "map_of (tasks (run init_state [EvPOST (good_rq ''t1''), settle_ok, EvTimer 0])) ''t1'' = None"
    by (simp add: eval_defs good_rq_def settle_ok_def)
  show ?thesis
    using status_query[where inherited = std_inherited
          and st = "run init_state [EvPOST (good_rq ''t1'')]", OF n1 i1]
      status_query[where inherited = std_inherited
          and st = "run init_state [EvPOST (good_rq ''t1'')]", OF n2 i2]
      status_query[where inherited = std_inherited
          and st = "run init_state [EvPOST (good_rq ''t1''), settle_ok, EvTimer 0]", OF n1 i1]
      m1 m2 m3
    by simp
qed

text \<open>
  Against claim C5 as stated: GET /api/generate-video, asked for an id that its store does
  not hold and that the upstream does not know, answers 500.
\<close>

theorem video_unknown_id_gets_500:
  "GET_video [] video_get_unknown
     = ([], \<lparr>v_http = 500, v_payload = VError ''Failed to check task status''\<rparr>,
        [DirectStatus ''no-such-task''])"
  by (simp add: GET_video_def video_get_unknown_def Let_def)

section \<open>Scheduled deletion\<close>

lemma step_timers:
  assumes "inv st" and r: "r < length (heap (step st e))"
    and fresh: "r < length (heap st) \<longrightarrow> \<not> terminal (status (heap st ! r))"
  shows "(status (heap (step st e) ! r) = Completed \<longrightarrow>
            timers (step st e) = timers st @ [(id_t (heap (step st e) ! r), 3600000)])
       \<and> (status (heap (step st e) ! r) = Failed \<longrightarrow>
            timers (step st e) = timers st @ [(id_t (heap (step st e) ! r), 900000)])"
proof -
  consider (same) "unchanged st (step st e)"
    | (new) rq where "admitted st rq (step st e)"
    | (settled) i out where "e = EvSettled i out" "i < length (awaiting st)"
    | (timer) i where "e = EvTimer i" "i < length (timers st)"
    using step_effect[of st e] by blast
  then show ?thesis
  proof cases
    case same
    then have "heap (step st e) = heap st" by (simp add: unchanged_def)
    then show ?thesis using fresh r by (auto simp: terminal_def)
  next
    case timer
    then have "heap (step st e) = heap st" by simp
    then show ?thesis using fresh r by (auto simp: terminal_def)
  next
    case new
    then have h: "heap (step st e) = heap st @ [admitted_task rq]"
      and t: "timers (step st e) =
          (if falsy_str (rq_apiKey rq) then timers st @ [(rq_uuid rq, 900000)] else timers st)"
      by (simp_all add: admitted_def)
    show ?thesis
    proof (cases "r < length (heap st)")
      case True
      then have "heap (step st e) ! r = heap st ! r" using h by (simp add: nth_append)
      then show ?thesis using fresh True by (auto simp: terminal_def)
    next
      case False
      then have "r = length (heap st)" using r h by simp
      then have "heap (step st e) ! r = admitted_task rq" using h by simp
      then show ?thesis using t by (simp add: admitted_task_def)
    qed
  next
    case settled
    obtain t' where h: "heap (step st e) = (heap st)[c_ref (awaiting st ! i) := t']"
      and c: "c_ref (awaiting st ! i) < length (heap st)"
      and t: "status t' = Completed \<and> timers (step st (EvSettled i out)) = timers st @ [(id_t t', 3600000)]
           \<or> status t' = Failed \<and> timers (step st (EvSettled i out)) = timers st @ [(id_t t', 900000)]"
      using settled_heap[OF assms(1) settled(2), of out] settled(1) by metis
    show ?thesis
    proof (cases "r = c_ref (awaiting st ! i)")
      case True
      then have "heap (step st e) ! r = t'" using c h by simp
      then show ?thesis using t settled(1) by auto
    next
      case False
      then have "heap (step st e) ! r = heap st ! r" using h by simp
      then show ?thesis using fresh r h by (auto simp: terminal_def)
    qed
  qed
qed

lemma step_keys:
  assumes "inv st" and "map_of (tasks st) k \<noteq> None" and "map_of (tasks (step st e)) k = None"
  shows "\<exists>i. e = EvTimer i \<and> i < length (timers st) \<and> fst (timers st ! i) = k"
proof -
  consider (same) "unchanged st (step st e)"
    | (new) rq where "admitted st rq (step st e)"
    | (settled) i out where "e = EvSettled i out" "i < length (awaiting st)"
    | (timer) i where "e = EvTimer i" "i < length (timers st)"
    using step_effect[of st e] by blast
  then show ?thesis
  proof cases
    case same
    then show ?thesis using assms(2,3) by (simp add: unchanged_def)
  next
    case new
    then show ?thesis using assms(2,3) by (auto simp: admitted_def update_conv' split: if_splits)
  next
    case settled
    obtain t' where "tasks (step st e) = tasks st"
      using settled_heap[OF assms(1) settled(2), of out] settled(1) by metis
    then show ?thesis using assms(2,3) by simp
  next
    case timer
    then show ?thesis using assms(2,3) by (auto simp: delete_conv' split: if_splits)
  qed
qed

text \<open>
  Claim C6. At every step of every run, a record that the step brings to \<open>completed\<close> gets a
  timer for its id with a delay of 3600000 ms appended to the pending timers, and a record
  that the step brings to \<open>failed\<close> gets one with a delay of 900000 ms. A key leaves the
  store only in a step where a timer for that key fires, and a timer that fires removes
  its key.
\<close>

theorem cleanup_scheduled:
  "(let s = run init_state es; s' = step s e in
     (\<forall>r. r < length (heap s') \<and> (r < length (heap s) \<longrightarrow> \<not> terminal (status (heap s ! r))) \<longrightarrow>
        (status (heap s' ! r) = Completed \<longrightarrow>
           timers s' = timers s @ [(id_t (heap s' ! r), 3600000)])
      \<and> (status (heap s' ! r) = Failed \<longrightarrow>
           timers s' = timers s @ [(id_t (heap s' ! r), 900000)]))
   \<and> (\<forall>k. map_of (tasks s) k \<noteq> None \<and> map_of (tasks s') k = None \<longrightarrow>
        (\<exists>i. e = EvTimer i \<and> i < length (timers s) \<and> fst (timers s ! i) = k))
   \<and> (\<forall>i. i < length (timers s) \<longrightarrow>
        map_of (tasks (step s (EvTimer i))) (fst (timers s ! i)) = None))"
proof -
  have i: "inv (run init_state es)" by (rule inv_reachable)
  show ?thesis
    unfolding Let_def
    using step_timers[OF i, of _ e] step_keys[OF i, of _ e]
    by (auto simp: delete_conv')
qed

theorem cleanup_scheduled_witness:
  "status (heap (step (run init_state [EvPOST (good_rq ''t1'')]) settle_ok) ! 0) = Completed
   \<and> timers (step (run init_state [EvPOST (good_rq ''t1'')]) settle_ok) = [(''t1'', 3600000)]
   \<and> timers (run init_state [EvPOST ((good_rq ''t2'')\<lparr>rq_apiKey := None\<rparr>)]) = [(''t2'', 900000)]"
proof -
  have a: "status (heap (step (run init_state [EvPOST (good_rq ''t1'')]) settle_ok) ! 0) = Completed"
    by (simp add: eval_defs good_rq_def settle_ok_def)
  have b: "0 < length (heap (step (run init_state [EvPOST (good_rq ''t1'')]) settle_ok))"
    by (simp add: eval_defs good_rq_def settle_ok_def)
  have c: "status (heap (run init_state [EvPOST (good_rq ''t1'')]) ! 0) = Processing"
    by (simp add: eval_defs good_rq_def)
  have d: "timers (run init_state [EvPOST (good_rq ''t1'')]) = []"
    by (simp add: eval_defs good_rq_def)
  have e: "id_t (heap (step (run init_state [EvPOST (good_rq ''t1'')]) settle_ok) ! 0) = ''t1''"
    by (simp add: eval_defs good_rq_def settle_ok_def)
  have f: "timers (run init_state [EvPOST ((good_rq ''t2'')\<lparr>rq_apiKey := None\<rparr>)]) = [(''t2'', 900000)]"
    by (simp add: eval_defs good_rq_def)
  have "timers (step (run init_state [EvPOST (good_rq ''t1'')]) settle_ok) = [(''t1'', 3600000)]"
    using cleanup_scheduled[of "[EvPOST (good_rq ''t1'')]" settle_ok] a b c d e
    unfolding Let_def by (auto simp: terminal_def)
  then show ?thesis using a f by simp
qed

section \<open>A missing API key, and uploads that are not images\<close>

lemma POST_video_no_key:
  assumes "falsy_str (vp_apiKey p)" "vp_form p = Some f" "f_image f = FileEntry m"
    "startsWith m ''image/''" "entry_truthy (f_prompt f)"
  shows "POST_video vs p =
     (vs, \<lparr>v_http = 500,
           v_payload = VBothFailed (Error ''RUNWAY_API_KEY is not configured.'') TypeError\<rparr>, [])"
  using assms by (simp add: POST_video_def fallback_throws)

lemma POST_video_sync_no_key:
  assumes "falsy_str (vs_apiKey p)" "vs_form p = Some f" "f_image f = FileEntry m"
    "startsWith m ''image/''" "entry_truthy (f_prompt f)"
  shows "POST_video_sync p =
     (\<lparr>v_http = 500,
       v_payload = VBothFailed (Error ''RUNWAY_API_KEY is not configured.'') TypeError\<rparr>, [])"
  using assms by (simp add: POST_video_sync_def fallback_sync_throws)

lemma POST_video_no_key_quiet:
  assumes "falsy_str (vp_apiKey p)"
  shows "fst (POST_video vs p) = vs \<and> snd (snd (POST_video vs p)) = []
       \<and> v_http (fst (snd (POST_video vs p))) \<in> {400, 500}"
  using assms
  by (auto simp: POST_video_def fallback_throws split: option.splits form_entry.splits)

lemma POST_video_sync_no_key_quiet:
  assumes "falsy_str (vs_apiKey p)"
  shows "snd (POST_video_sync p) = [] \<and> v_http (fst (POST_video_sync p)) \<in> {400, 500}"
  using assms
  by (auto simp: POST_video_sync_def fallback_sync_throws split: option.splits form_entry.splits)

lemma POST_response_ignores_key: "snd (POST st (rq\<lparr>rq_apiKey := k\<rparr>)) = snd (POST st rq)"
  by (simp add: POST_def POST_limit_def POST_rest_def client_key_def Let_def
      split: prod.splits option.splits)

text \<open>
  Claim C7, as amended. When \<open>RUNWAY_API_KEY\<close> is absent or empty: GET /api/generate-video
  with a task id answers 500 \<open>RUNWAY_API_KEY is not configured\<close> and calls nothing upstream.
  Both POST handlers of /api/generate-video, given an image file and a prompt, answer 500
  with the error \<open>RUNWAY_API_KEY is not configured.\<close>, call nothing upstream and leave
  \<open>videoTasks\<close> unchanged; whatever the form, they call nothing upstream, leave the store
  unchanged and answer 400 or 500. POST /api/generate does not answer 500 for it: its
  response is the one it gives with a key, and a request it accepts is answered 200 with
  the record left \<open>failed\<close> with the error \<open>RUNWAY_API_KEY is not configured\<close>.
\<close>

theorem missing_api_key:
  assumes "falsy_str key"
  shows "(\<forall>vs g. \<not> falsy_str (vg_taskId g) \<and> vg_apiKey g = key \<longrightarrow>
            GET_video vs g =
              (vs, \<lparr>v_http = 500, v_payload = VError ''RUNWAY_API_KEY is not configured''\<rparr>, []))
       \<and> (\<forall>vs p f m. vp_apiKey p = key \<and> vp_form p = Some f \<and> f_image f = FileEntry m
              \<and> startsWith m ''image/'' \<and> entry_truthy (f_prompt f) \<longrightarrow>
            POST_video vs p =
              (vs, \<lparr>v_http = 500,
                    v_payload = VBothFailed (Error ''RUNWAY_API_KEY is not configured.'') TypeError\<rparr>,
               []))
       \<and> (\<forall>p f m. vs_apiKey p = key \<and> vs_form p = Some f \<and> f_image f = FileEntry m
              \<and> startsWith m ''image/'' \<and> entry_truthy (f_prompt f) \<longrightarrow>
            POST_video_sync p =
              (\<lparr>v_http = 500,
                v_payload = VBothFailed (Error ''RUNWAY_API_KEY is not configured.'') TypeError\<rparr>,
               []))
       \<and> (\<forall>vs p. vp_apiKey p = key \<longrightarrow>
            fst (POST_video vs p) = vs \<and> snd (snd (POST_video vs p)) = []
            \<and> v_http (fst (snd (POST_video vs p))) \<in> {400, 500})
       \<and> (\<forall>p. vs_apiKey p = key \<longrightarrow>
            snd (POST_video_sync p) = [] \<and> v_http (fst (POST_video_sync p)) \<in> {400, 500})
       \<and> (\<forall>st rq. rq_apiKey rq = key \<longrightarrow>
            (\<forall>k. snd (POST st (rq\<lparr>rq_apiKey := k\<rparr>)) = snd (POST st rq))
            \<and> (http_status (snd (POST st rq)) = 200 \<longrightarrow>
                 heap (fst (POST st rq)) = heap st @ [admitted_task rq]
                 \<and> status (admitted_task rq) = Failed
                 \<and> error (admitted_task rq) = Some ''RUNWAY_API_KEY is not configured''))"
proof -
  have 1: "\<forall>vs g. \<not> falsy_str (vg_taskId g) \<and> vg_apiKey g = key \<longrightarrow>
            GET_video vs g =
              (vs, \<lparr>v_http = 500, v_payload = VError ''RUNWAY_API_KEY is not configured''\<rparr>, [])"
    using assms by (simp add: GET_video_def)
  have 2: "\<forall>vs p f m. vp_apiKey p = key \<and> vp_form p = Some f \<and> f_image f = FileEntry m
              \<and> startsWith m ''image/'' \<and> entry_truthy (f_prompt f) \<longrightarrow>
            POST_video vs p =
              (vs, \<lparr>v_http = 500,
                    v_payload = VBothFailed (Error ''RUNWAY_API_KEY is not configured.'') TypeError\<rparr>,
               [])"
    using assms POST_video_no_key by blast
  have 3: "\<forall>p f m. vs_apiKey p = key \<and> vs_form p = Some f \<and> f_image f = FileEntry m
              \<and> startsWith m ''image/'' \<and> entry_truthy (f_prompt f) \<longrightarrow>
            POST_video_sync p =
              (\<lparr>v_http = 500,
                v_payload = VBothFailed (Error ''RUNWAY_API_KEY is not configured.'') TypeError\<rparr>,
               [])"
    using assms POST_video_sync_no_key by blast
  have 4: "\<forall>vs p. vp_apiKey p = key \<longrightarrow>
            fst (POST_video vs p) = vs \<and> snd (snd (POST_video vs p)) = []
            \<and> v_http (fst (snd (POST_video vs p))) \<in> {400, 500}"
    using assms POST_video_no_key_quiet by blast
  have 5: "\<forall>p. vs_apiKey p = key \<longrightarrow>
            snd (POST_video_sync p) = [] \<and> v_http (fst (POST_video_sync p)) \<in> {400, 500}"
    using assms POST_video_sync_no_key_quiet by blast
  have 6: "\<forall>st rq. rq_apiKey rq = key \<longrightarrow>
            (\<forall>k. snd (POST st (rq\<lparr>rq_apiKey := k\<rparr>)) = snd (POST st rq))
            \<and> (http_status (snd (POST st rq)) = 200 \<longrightarrow>
                 heap (fst (POST st rq)) = heap st @ [admitted_task rq]
                 \<and> status (admitted_task rq) = Failed
                 \<and> error (admitted_task rq) = Some ''RUNWAY_API_KEY is not configured'')"
    using assms POST_accepted by (simp add: POST_response_ignores_key admitted_def admitted_task_def)
  show ?thesis using 1 2 3 4 5 6 by blast
qed

theorem missing_api_key_witness:
  "GET_video [] video_get_no_key =
     ([], \<lparr>v_http = 500, v_payload = VError ''RUNWAY_API_KEY is not configured''\<rparr>, [])
   \<and> POST_video [] vpost_no_key =
     ([], \<lparr>v_http = 500,
           v_payload = VBothFailed (Error ''RUNWAY_API_KEY is not configured.'') TypeError\<rparr>, [])
   \<and> POST_video_sync vpost_sync_no_key =
     (\<lparr>v_http = 500,
       v_payload = VBothFailed (Error ''RUNWAY_API_KEY is not configured.'') TypeError\<rparr>, [])
   \<and> status (admitted_task ((good_rq ''t1'')\<lparr>rq_apiKey := None\<rparr>)) = Failed"
proof -
  have k: "falsy_str None" by simp
  have a: "\<not> falsy_str (vg_taskId video_get_no_key) \<and> vg_apiKey video_get_no_key = None"
    by (simp add: video_get_no_key_def)
  have b: "rq_apiKey ((good_rq ''t1'')\<lparr>rq_apiKey := None\<rparr>) = None" by simp
  have c: "http_status (snd (POST init_state ((good_rq ''t1'')\<lparr>rq_apiKey := None\<rparr>))) = 200"
    by (simp add: eval_defs good_rq_def)
  have d: "vp_apiKey vpost_no_key = None
      \<and> vp_form vpost_no_key = Some \<lparr>f_image = FileEntry ''image/png'', f_prompt = TextEntry ''a cat dancing''\<rparr>
      \<and> f_image \<lparr>f_image = FileEntry ''image/png'', f_prompt = TextEntry ''a cat dancing''\<rparr> = FileEntry ''image/png''
      \<and> startsWith ''image/png'' ''image/''
      \<and> entry_truthy (f_prompt \<lparr>f_image = FileEntry ''image/png'', f_prompt = TextEntry ''a cat dancing''\<rparr>)"
    by (simp add: vpost_no_key_def startsWith_def)
  have e: "vs_apiKey vpost_sync_no_key = None
      \<and> vs_form vpost_sync_no_key = Some \<lparr>f_image = FileEntry ''image/png'', f_prompt = TextEntry ''a cat dancing''\<rparr>"
    by (simp add: vpost_sync_no_key_def)
  show ?thesis using missing_api_key[OF k] a b c d e by blast
qed

text \<open>
  Against claim C7 as stated: without the key, POST /api/generate answers a valid request
  with 200 and a task id.
\<close>

theorem generate_without_key_gets_200:
  "snd (POST init_state ((good_rq ''t1'')\<lparr>rq_apiKey := None\<rparr>))
     = \<lparr>http_status = 200, payload = TaskIdPayload ''t1''\<rparr>"
  by (simp add: eval_defs good_rq_def)

text \<open>
  Claim C10. A POST to /api/generate-video whose \<open>image\<close> entry is a file with a type that
  does not start with \<open>image/\<close> is answered 400, makes no upstream call and leaves
  \<open>videoTasks\<close> unchanged. This holds for both POST handlers of the repository (the second
  keeps no store).
\<close>

theorem non_image_upload_rejected:
  assumes "f_image f = FileEntry m" and "\<not> startsWith m ''image/''"
  shows "(vp_form rq = Some f \<longrightarrow>
            fst (POST_video vs rq) = vs \<and> v_http (fst (snd (POST_video vs rq))) = 400
            \<and> snd (snd (POST_video vs rq)) = [])
       \<and> (vs_form rq' = Some f \<longrightarrow>
            v_http (fst (POST_video_sync rq')) = 400 \<and> snd (POST_video_sync rq') = [])"
  using assms by (simp add: POST_video_def POST_video_sync_def)

theorem non_image_upload_rejected_witness:
  "POST_video [] vpost_pdf =
     ([], \<lparr>v_http = 400, v_payload = VError ''Invalid file type. Please upload an image.''\<rparr>, [])
   \<and> v_http (fst (POST_video_sync vpost_sync_pdf)) = 400
   \<and> snd (POST_video_sync vpost_sync_pdf) = []"
proof -
  have a: "f_image \<lparr>f_image = FileEntry ''application/pdf'', f_prompt = TextEntry ''a cat dancing''\<rparr>
      = FileEntry ''application/pdf''" by simp
  have b: "\<not> startsWith ''application/pdf'' ''image/''" by (simp add: startsWith_def)
  have c: "vp_form vpost_pdf = Some \<lparr>f_image = FileEntry ''application/pdf'', f_prompt = TextEntry ''a cat dancing''\<rparr>"
    by (simp add: vpost_pdf_def)
  have d: "vs_form vpost_sync_pdf = Some \<lparr>f_image = FileEntry ''application/pdf'', f_prompt = TextEntry ''a cat dancing''\<rparr>"
    by (simp add: vpost_sync_pdf_def)
  have e: "POST_video [] vpost_pdf =
     ([], \<lparr>v_http = 400, v_payload = VError ''Invalid file type. Please upload an image.''\<rparr>, [])"
    by (simp add: POST_video_def vpost_pdf_def startsWith_def)
  show ?thesis
    using non_image_upload_rejected[OF a b, of vpost_pdf "[]" vpost_sync_pdf] c d e by simp
qed

end
